theory Spec2Isabelle
  imports Complex_Main "HOL-Library.Multiset" "HOL-Library.Product_Lexorder"
begin

section \<open>Crowd density predictor (script.js): a shallow embedding\<close>

text \<open>
  Conventions of the embedding.
  \<^item> A JavaScript number is a \<open>real\<close> (an \<open>int\<close> where the code only holds integers). The
    footfall heuristic (\<open>computeFootfallSample\<close> with its tables, factors and the noise)
    is computed as the code computes it, in IEEE double arithmetic: a numeric literal
    denotes the nearest double and every operation rounds its exact result to the nearest
    double (\<open>fl\<close>). The draws of the uniform source and the arithmetic the generators do
    on them (indices, timestamps, temperatures) are exact.
  \<^item> \<open>undefined\<close> (an array read out of range, a missing key) is \<open>None\<close>; for a number,
    \<open>None\<close> also stands for \<open>NaN\<close>, which is what arithmetic on \<open>undefined\<close> gives.
  \<^item> \<open>Math.random()\<close> reads from an explicit source, a list of draws consumed from the
    front; a source that runs dry gives \<open>None\<close> (the call does not return).
  \<^item> The \<open>Date\<close> object of the platform is a parameter (\<open>date_api\<close>).
  \<^item> The module-level variables \<open>DATASET\<close>, \<open>SAMPLES_SORTED\<close>, \<open>QUARTILES\<close> and
    \<open>PER_LOCATION_STATS\<close> are the fields of a state record that is passed explicitly.
\<close>

subsection \<open>IEEE double arithmetic\<close>

text \<open>\<open>rne\<close> rounds to the nearest integer, a tie to the even one.\<close>

definition rne :: "real \<Rightarrow> int" where
  "rne y =
     (let f = \<lfloor>y\<rfloor>
      in if y - of_int f < 1 / 2 then f
         else if 1 / 2 < y - of_int f then f + 1
         else if even f then f else f + 1)"

text \<open>
  \<open>fl x\<close> is the double nearest to \<open>x\<close>, a tie to the even significand: 53 significant
  bits, so in the binade \<open>2^e \<le> |x| < 2^(e+1)\<close> the doubles are the multiples of
  \<open>2^(e-52)\<close>. The exponent is not bounded: overflow and the subnormal range, which the
  values of the footfall heuristic do not reach, are not modelled.
\<close>

definition fl :: "real \<Rightarrow> real" where
  "fl x =
     (if x = 0 then 0
      else let u = 2 powr (of_int \<lfloor>log 2 \<bar>x\<bar>\<rfloor> - 52) in of_int (rne (x / u)) * u)"

text \<open>
  \<open>Math.PI\<close> is the double nearest to \<open>pi\<close>. \<open>Math.sqrt\<close>, \<open>Math.log\<close> and \<open>Math.cos\<close> are
  implementation-approximated in ECMAScript; the model takes the correctly rounded value.
  Nothing below depends on the value they return.
\<close>

definition Math_PI :: real where
  "Math_PI = fl pi"

definition Math_sqrt :: "real \<Rightarrow> real" where
  "Math_sqrt x = fl (sqrt x)"

definition Math_log :: "real \<Rightarrow> real" where
  "Math_log x = fl (ln x)"

definition Math_cos :: "real \<Rightarrow> real" where
  "Math_cos x = fl (cos x)"

subsection \<open>Configuration tables\<close>

text \<open>The object literals, each number the double that its literal denotes.\<close>

definition LOCATIONS :: "string list" where
  "LOCATIONS = [''Chamundi_Temple'', ''Nanjangud_Temple'', ''Srirangapatna_Temple'',
                ''Mysore_Palace'', ''Brindavan_Gardens'', ''Mysore_Zoo'', ''KRS_Dam'']"

definition locPopularity :: "(string \<times> real) list" where
  "locPopularity = [(''Chamundi_Temple'', fl 1.2), (''Nanjangud_Temple'', fl 0.9),
                    (''Srirangapatna_Temple'', fl 0.6), (''Mysore_Palace'', fl 1.5),
                    (''Brindavan_Gardens'', fl 1.1), (''Mysore_Zoo'', fl 1.0),
                    (''KRS_Dam'', fl 0.7)]"

definition baseScale :: "(string \<times> real) list" where
  "baseScale = [(''Chamundi_Temple'', fl 500), (''Nanjangud_Temple'', fl 300),
                (''Srirangapatna_Temple'', fl 150), (''Mysore_Palace'', fl 800),
                (''Brindavan_Gardens'', fl 450), (''Mysore_Zoo'', fl 350),
                (''KRS_Dam'', fl 200)]"

definition weatherMultiplier :: "(string \<times> real) list" where
  "weatherMultiplier = [(''Clear'', fl 1.0), (''Cloudy'', fl 0.95), (''Rain'', fl 0.6),
                        (''Hot'', fl 0.8), (''Humid'', fl 0.9)]"

definition FESTIVAL_DATES :: "string list" where
  "FESTIVAL_DATES =
     [''2024-01-14'', ''2024-01-26'', ''2024-02-14'', ''2024-03-08'', ''2024-03-25'',
      ''2024-04-09'', ''2024-04-22'', ''2024-05-01'', ''2024-08-15'', ''2024-10-02'',
      ''2024-10-24'', ''2024-11-01'', ''2024-11-12'', ''2024-12-25'',
      ''2025-01-14'', ''2025-02-14'', ''2025-03-17'', ''2025-04-21'', ''2025-11-04'']"

subsection \<open>JavaScript primitives\<close>

text \<open>
  \<open>table[key]\<close> on one of the object literals above, for a key that is \<open>undefined\<close> (in
  none of the tables) or a string that \<open>Object.prototype\<close> has no property for. The keys
  the code passes are of this kind: the generators pass entries of \<open>LOCATIONS\<close> and of
  \<open>Object.keys(weatherMultiplier)\<close>, \<open>"Clear"\<close> or \<open>undefined\<close>. An inherited name such
  as \<open>"constructor"\<close> reads a function and makes the footfall \<open>NaN\<close>; such keys are outside
  the model.
\<close>

definition js_lookup :: "(string \<times> 'v) list \<Rightarrow> string option \<Rightarrow> 'v option" where
  "js_lookup table key = (case key of None \<Rightarrow> None | Some k \<Rightarrow> map_of table k)"

text \<open>\<open>v || d\<close> on a number: \<open>undefined\<close>, \<open>NaN\<close> and \<open>0\<close> are falsy.\<close>

definition js_or :: "'a::zero option \<Rightarrow> 'a \<Rightarrow> 'a" where
  "js_or v d = (case v of None \<Rightarrow> d | Some x \<Rightarrow> if x = 0 then d else x)"

text \<open>\<open>v ?? d\<close>: only \<open>undefined\<close> and \<open>null\<close> give the default.\<close>

definition js_nullish :: "real option \<Rightarrow> real \<Rightarrow> real" where
  "js_nullish v d = (case v of None \<Rightarrow> d | Some x \<Rightarrow> x)"

text \<open>\<open>Math.round\<close> rounds a double to the nearest integer, a tie towards plus infinity.\<close>

definition Math_round :: "real \<Rightarrow> int" where
  "Math_round x = \<lfloor>x + 1 / 2\<rfloor>"

text \<open>\<open>xs[i]\<close> on an array: \<open>undefined\<close> out of range.\<close>

definition js_index :: "'a list \<Rightarrow> int \<Rightarrow> 'a option" where
  "js_index xs i = (if 0 \<le> i \<and> i < int (length xs) then Some (xs ! nat i) else None)"

subsection \<open>The uniform source\<close>

type_synonym 'a rand = "real list \<Rightarrow> ('a \<times> real list) option"

definition Math_random :: "real rand" where
  "Math_random src = (case src of [] \<Rightarrow> None | r # rest \<Rightarrow> Some (r, rest))"

definition return_rand :: "'a \<Rightarrow> 'a rand" where
  "return_rand x src = Some (x, src)"

definition bind_rand :: "'a rand \<Rightarrow> ('a \<Rightarrow> 'b rand) \<Rightarrow> 'b rand" where
  "bind_rand m f src = (case m src of None \<Rightarrow> None | Some (x, src') \<Rightarrow> f x src')"

text \<open>The loop \<open>while (u === 0) u = Math.random();\<close> started at the value \<open>u\<close>.\<close>

fun redraw_while_zero :: "real \<Rightarrow> real rand" where
  "redraw_while_zero u [] = (if u = 0 then None else Some (u, []))"
| "redraw_while_zero u (r # rest) =
     (if u = 0 then redraw_while_zero r rest else Some (u, r # rest))"

text \<open>
  Box-Muller: \<open>z = Math.sqrt(-2.0 * Math.log(u)) * Math.cos(2.0 * Math.PI * v)\<close>, returned
  as \<open>z * std + mean\<close>.
\<close>

definition gaussianRandom :: "real \<Rightarrow> real \<Rightarrow> real rand" where
  "gaussianRandom mean std =
     bind_rand (redraw_while_zero 0) (\<lambda>u.
     bind_rand (redraw_while_zero 0) (\<lambda>v.
       let z = fl (Math_sqrt (fl (fl (- 2.0) * Math_log u))
                   * Math_cos (fl (fl (fl 2.0 * Math_PI) * v)))
       in return_rand (fl (fl (z * std) + mean))))"

subsection \<open>Time and temperature factors\<close>

definition timeFactor :: "int \<Rightarrow> real" where
  "timeFactor hour =
     (if hour \<ge> 6 \<and> hour < 9 then fl 0.9
      else if hour \<ge> 9 \<and> hour < 12 then fl 1.0
      else if hour \<ge> 12 \<and> hour < 15 then fl 0.8
      else if hour \<ge> 15 \<and> hour < 18 then fl 1.1
      else if hour \<ge> 18 \<and> hour < 21 then fl 1.4
      else fl 0.6)"

text \<open>Both comparisons are false on \<open>NaN\<close>.\<close>

definition tempFactor :: "real option \<Rightarrow> real" where
  "tempFactor temp =
     (case temp of None \<Rightarrow> fl 1.0
      | Some t \<Rightarrow> if t > 32 then fl 0.8 else if t < 20 then fl 0.85 else fl 1.0)"

subsection \<open>The footfall heuristic\<close>

text \<open>
  The body of \<open>computeFootfallSample\<close> after the noise has been drawn: the product is
  multiplied out from the left, a double after every step, the noise is added, and
  \<open>Math.round\<close> and \<open>Math.max\<close> follow. The flags \<open>is_festival\<close> and \<open>is_holiday\<close> are the
  numbers 1 and 0, tested for truthiness.
\<close>

definition footfallWithNoise ::
  "string option \<Rightarrow> int \<Rightarrow> string option \<Rightarrow> real option \<Rightarrow> nat \<Rightarrow> nat \<Rightarrow> real \<Rightarrow> int" where
  "footfallWithNoise location hour weather temp is_festival is_holiday noise =
     (let pop = js_or (js_lookup locPopularity location) (fl 1.0);
          tf = timeFactor hour;
          festivalFactor = (if is_festival \<noteq> 0 then fl 2.0 else fl 1.0);
          holidayFactor = (if is_holiday \<noteq> 0 then fl 1.4 else fl 1.0);
          wmul = js_nullish (js_lookup weatherMultiplier weather) (fl 1.0);
          tfac = tempFactor temp;
          base = js_or (js_lookup baseScale location) (fl 200)
      in max 0 (Math_round
           (fl (fl (fl (fl (fl (fl (fl (base * pop) * tf) * festivalFactor) * holidayFactor)
                        * wmul) * tfac)
                + noise))))"

definition noiseStd :: "string option \<Rightarrow> real" where
  "noiseStd location = fl (js_or (js_lookup baseScale location) (fl 200) * fl 0.15)"

definition computeFootfallSample ::
  "string option \<Rightarrow> int \<Rightarrow> string option \<Rightarrow> real option \<Rightarrow> nat \<Rightarrow> nat \<Rightarrow> int rand" where
  "computeFootfallSample location hour weather temp is_festival is_holiday =
     bind_rand (gaussianRandom (fl 0) (noiseStd location)) (\<lambda>noise.
       return_rand (footfallWithNoise location hour weather temp is_festival is_holiday noise))"

subsection \<open>Observations, quartiles and the module state\<close>

datatype density = Low | Medium | High | Very_High | Unknown

record row =
  datetime :: string
  date :: string
  day_of_week :: nat
  month :: nat
  hour :: int
  location :: "string option"
  weather :: "string option"
  temperature :: "real option"
  is_festival :: nat
  is_holiday :: nat
  footfall :: int
  density_label :: "density option"
  density_int :: "nat option"

record quartiles =
  q1 :: int
  q2 :: int
  q3 :: int

text \<open>An entry of \<open>topHours\<close> is the pair \<open>(hour, avg)\<close>.\<close>

record locstats = quartiles +
  topHours :: "(int \<times> int) list"

record state =
  DATASET :: "row list"
  SAMPLES_SORTED :: "int list"
  QUARTILES :: "quartiles option"
  PER_LOCATION_STATS :: "string \<rightharpoonup> locstats"

definition init_state :: state where
  "init_state = \<lparr>DATASET = [], SAMPLES_SORTED = [], QUARTILES = None,
                 PER_LOCATION_STATS = Map.empty\<rparr>"

subsection \<open>Mapping footfall to a density label\<close>

definition mapToDensityLabel :: "state \<Rightarrow> int \<Rightarrow> density" where
  "mapToDensityLabel st f =
     (case QUARTILES st of None \<Rightarrow> Unknown
      | Some q \<Rightarrow>
          if f \<le> q1 q then Low
          else if f \<le> q2 q then Medium
          else if f \<le> q3 q then High
          else Very_High)"

text \<open>The object literal \<open>{Low:0, Medium:1, High:2, Very_High:3}\<close> read at a label.\<close>

definition density_rank :: "density \<Rightarrow> nat option" where
  "density_rank l = map_of [(Low, 0), (Medium, 1), (High, 2), (Very_High, 3)] l"

subsection \<open>Objects keyed by numbers\<close>

text \<open>
  \<open>hourBuckets\<close> and \<open>counts\<close> are objects whose keys are hours. An object keeps its
  keys in creation order; \<open>Object.keys\<close> lists the keys that are array indices
  (\<open>0 \<le> k < 2^32 - 1\<close>) first, in ascending numeric order, and the other keys after
  them in creation order.
\<close>

type_synonym 'v js_object = "(int \<times> 'v) list"

fun obj_set :: "'v js_object \<Rightarrow> int \<Rightarrow> 'v \<Rightarrow> 'v js_object" where
  "obj_set [] k v = [(k, v)]"
| "obj_set ((k', v') # obj) k v =
     (if k' = k then (k, v) # obj else (k', v') # obj_set obj k v)"

definition obj_get :: "'v js_object \<Rightarrow> int \<Rightarrow> 'v option" where
  "obj_get obj k = map_of obj k"

definition is_array_index :: "int \<Rightarrow> bool" where
  "is_array_index k = (0 \<le> k \<and> k < 4294967295)"

definition Object_keys :: "'v js_object \<Rightarrow> int list" where
  "Object_keys obj =
     (let ks = map fst obj
      in sort (filter is_array_index ks) @ filter (\<lambda>k. \<not> is_array_index k) ks)"

subsection \<open>Global quartiles and labels\<close>

text \<open>The body of the labelling loop for one row, with its own copy of the thresholds.\<close>

definition label_row :: "int \<Rightarrow> int \<Rightarrow> int \<Rightarrow> row \<Rightarrow> row" where
  "label_row a b c r =
     (let l = (if footfall r \<le> a then Low
               else if footfall r \<le> b then Medium
               else if footfall r \<le> c then High
               else Very_High)
      in r\<lparr>density_label := Some l, density_int := density_rank l\<rparr>)"

text \<open>
  The three reads of \<open>SAMPLES_SORTED\<close> happen for \<open>n > 0\<close> only, at ranks below \<open>n\<close>
  (\<open>rank_bounds\<close> below): none of them is out of range.
\<close>

definition computeGlobalQuartilesAndLabels :: "state \<Rightarrow> state" where
  "computeGlobalQuartilesAndLabels st =
     (let samples = sort (map footfall (DATASET st));
          st1 = st\<lparr>SAMPLES_SORTED := samples\<rparr>;
          n = length samples
      in if n = 0 then st1\<lparr>QUARTILES := Some \<lparr>q1 = 0, q2 = 0, q3 = 0\<rparr>\<rparr>
         else
           let a = samples ! nat \<lfloor>real n * 0.25\<rfloor>;
               b = samples ! nat \<lfloor>real n * 0.50\<rfloor>;
               c = samples ! nat \<lfloor>real n * 0.75\<rfloor>
           in st1\<lparr>QUARTILES := Some \<lparr>q1 = a, q2 = b, q3 = c\<rparr>,
                   DATASET := map (label_row a b c) (DATASET st)\<rparr>)"

subsection \<open>Per-location statistics\<close>

text \<open>One pass of \<open>for (let row of DATASET)\<close> over the two accumulators.\<close>

definition bucket_step ::
  "string \<Rightarrow> row \<Rightarrow> int js_object \<times> nat js_object \<Rightarrow> int js_object \<times> nat js_object" where
  "bucket_step loc r acc =
     (case acc of (hourBuckets, counts) \<Rightarrow>
        if location r \<noteq> Some loc then (hourBuckets, counts)
        else (obj_set hourBuckets (hour r) (js_or (obj_get hourBuckets (hour r)) 0 + footfall r),
              obj_set counts (hour r) (js_or (obj_get counts (hour r)) 0 + 1)))"

text \<open>
  The callback of \<open>map\<close> over \<open>Object.keys(hourBuckets)\<close>. It reads both objects at a key
  of \<open>hourBuckets\<close>; the two objects have the same keys (\<open>buckets_fold\<close> below), so both
  reads are defined and the count is at least 1.
\<close>

definition hour_average :: "int js_object \<Rightarrow> nat js_object \<Rightarrow> int \<Rightarrow> int \<times> int" where
  "hour_average hourBuckets counts h =
     (h, Math_round (real_of_int (the (obj_get hourBuckets h)) / real (the (obj_get counts h))))"

text \<open>
  \<open>.sort((a,b) => b.avg - a.avg)\<close> is a stable sort (ECMAScript 2019) that puts the larger
  average first: a stable ascending sort on the key \<open>- avg\<close>.
\<close>

definition locationStats :: "row list \<Rightarrow> string \<Rightarrow> locstats" where
  "locationStats ds loc =
     (let items = sort (map footfall (filter (\<lambda>d. location d = Some loc) ds))
      in if length items = 0 then \<lparr>q1 = 0, q2 = 0, q3 = 0, topHours = []\<rparr>
         else
           let n = length items;
               a = items ! nat \<lfloor>real n * 0.25\<rfloor>;
               b = items ! nat \<lfloor>real n * 0.50\<rfloor>;
               c = items ! nat \<lfloor>real n * 0.75\<rfloor>;
               (hourBuckets, counts) = fold (bucket_step loc) ds ([], []);
               avgPerHour = take 5 (sort_key (\<lambda>e. - snd e)
                              (map (hour_average hourBuckets counts) (Object_keys hourBuckets)))
           in \<lparr>q1 = a, q2 = b, q3 = c, topHours = avgPerHour\<rparr>)"

definition computePerLocationStats :: "state \<Rightarrow> state" where
  "computePerLocationStats st =
     st\<lparr>PER_LOCATION_STATS :=
          fold (\<lambda>loc stats. stats(loc \<mapsto> locationStats (DATASET st) loc)) LOCATIONS Map.empty\<rparr>"

subsection \<open>The components of the specification, in its words\<close>

text \<open>
  \<open>spec_compute_quartiles\<close>: sort ascending; for sample count \<open>n\<close>,
  \<open>q_k = sorted[floor(n * p_k)]\<close> with \<open>p = 0.25, 0.50, 0.75\<close>; \<open>n = 0\<close> gives \<open>{0,0,0}\<close>.
\<close>

definition spec_compute_quartiles :: "int list \<Rightarrow> quartiles" where
  "spec_compute_quartiles samples =
     (let sorted_samples = sort samples; n = length samples
      in if n = 0 then \<lparr>q1 = 0, q2 = 0, q3 = 0\<rparr>
         else \<lparr>q1 = sorted_samples ! nat \<lfloor>real n * (25 / 100)\<rfloor>,
               q2 = sorted_samples ! nat \<lfloor>real n * (50 / 100)\<rfloor>,
               q3 = sorted_samples ! nat \<lfloor>real n * (75 / 100)\<rfloor>\<rparr>)"









text \<open>
  \<open>spec_top_hours\<close>: group the rows of the location by hour; the arithmetic mean of
  footfall per group, rounded to the nearest integer; sort descending by average, ties
  broken by ascending hour; the top \<open>k\<close>.
\<close>

definition spec_group :: "row list \<Rightarrow> string \<Rightarrow> int \<Rightarrow> int list" where
  "spec_group corpus loc h =
     map footfall (filter (\<lambda>r. location r = Some loc \<and> hour r = h) corpus)"

definition spec_mean :: "int list \<Rightarrow> real" where
  "spec_mean xs = real_of_int (sum_list xs) / real (length xs)"

definition spec_top_hours :: "row list \<Rightarrow> string \<Rightarrow> nat \<Rightarrow> (int \<times> int) list" where
  "spec_top_hours corpus loc k =
     (let hours = remdups (map hour (filter (\<lambda>r. location r = Some loc) corpus));
          averages = map (\<lambda>h. (h, round (spec_mean (spec_group corpus loc h)))) hours
      in take k (sort_key (\<lambda>e. (- snd e, fst e)) averages))"

subsection \<open>The dataset generator\<close>

text \<open>
  The platform's \<open>Date\<close>, over timestamps in milliseconds: \<open>newDate k\<close> is what the
  \<open>k\<close>-th \<open>new Date()\<close> of a call reads from the clock, \<open>makeDate y m d\<close> is
  \<open>new Date(y, m, d)\<close>, \<open>setFullYear t y\<close> the timestamp after \<open>setFullYear(y)\<close>.
\<close>

record date_api =
  newDate :: "nat \<Rightarrow> int"
  getFullYear :: "int \<Rightarrow> int"
  getMonth :: "int \<Rightarrow> nat"
  getDate :: "int \<Rightarrow> nat"
  getDay :: "int \<Rightarrow> nat"
  setFullYear :: "int \<Rightarrow> int \<Rightarrow> int"
  makeDate :: "int \<Rightarrow> nat \<Rightarrow> nat \<Rightarrow> int"
  toISOString :: "int \<Rightarrow> string"

definition weatherTypes :: "string list" where
  "weatherTypes = map fst weatherMultiplier"

definition base_temp_by_month :: "real list" where
  "base_temp_by_month = [22, 23, 25, 27, 28, 28, 27, 27, 26, 25, 24, 23]"

text \<open>\<open>s || d\<close> on a string: \<open>undefined\<close> and the empty string are falsy.\<close>

definition js_or_string :: "string option \<Rightarrow> string \<Rightarrow> string" where
  "js_or_string v d = (case v of None \<Rightarrow> d | Some s \<Rightarrow> if s = [] then d else s)"

text \<open>\<open>Number(x.toFixed(1))\<close>: one decimal, a tie away from zero.\<close>

definition toFixed1 :: "real \<Rightarrow> real" where
  "toFixed1 x =
     (if x < 0 then - (real_of_int \<lfloor>(- x) * 10 + 1 / 2\<rfloor> / 10)
      else real_of_int \<lfloor>x * 10 + 1 / 2\<rfloor> / 10)"

text \<open>\<open>FESTIVAL_DATES.has(dateStr) ? 1 : (Math.random() < 0.02 ? 1 : 0)\<close>\<close>

definition draw_festival :: "string \<Rightarrow> nat rand" where
  "draw_festival dateStr =
     (if dateStr \<in> set FESTIVAL_DATES then return_rand 1
      else bind_rand Math_random (\<lambda>r. return_rand (if r < 0.02 then 1 else 0)))"

text \<open>One iteration of the loop of \<open>generateDataset\<close>: the row it pushes.\<close>

definition dataset_row :: "date_api \<Rightarrow> int \<Rightarrow> int \<Rightarrow> int \<Rightarrow> row rand" where
  "dataset_row api start msRange seedOffset =
     bind_rand Math_random (\<lambda>r1.
     let randMs = \<lfloor>r1 * real_of_int msRange\<rfloor>;
         dt = start + randMs + js_or (Some seedOffset) 0;
         mon = getMonth api dt + 1;
         dateStr = take 10 (toISOString api dt);
         dow = getDay api dt
     in
     bind_rand Math_random (\<lambda>r2.
     let h = \<lfloor>r2 * (21 - 6 + 1)\<rfloor> + 6 in
     bind_rand Math_random (\<lambda>r3.
     let loc = js_index LOCATIONS \<lfloor>r3 * real (length LOCATIONS)\<rfloor> in
     bind_rand Math_random (\<lambda>r4.
     bind_rand Math_random (\<lambda>r5.
     let w = js_or_string
               (js_index weatherTypes
                  (if r4 < 0.6 then \<lfloor>r5 * 1\<rfloor> else \<lfloor>r5 * real (length weatherTypes)\<rfloor>))
               ''Clear''
     in
     bind_rand Math_random (\<lambda>r6.
     let temp = map_option (\<lambda>b. b + (r6 * 4 - 2)) (js_index base_temp_by_month (int mon - 1)) in
     bind_rand (draw_festival dateStr) (\<lambda>fest.
     let hol = (if dow = 0 \<or> dow = 6 then 1 else 0) in
     bind_rand (computeFootfallSample loc h (Some w) temp fest hol) (\<lambda>f.
     return_rand
       \<lparr>datetime = toISOString api dt, date = dateStr, day_of_week = dow, month = mon,
        hour = h, location = loc, weather = Some w, temperature = map_option toFixed1 temp,
        is_festival = fest, is_holiday = hol, footfall = f,
        density_label = None, density_int = None\<rparr>))))))))"

fun dataset_loop :: "date_api \<Rightarrow> int \<Rightarrow> int \<Rightarrow> int \<Rightarrow> nat \<Rightarrow> state \<Rightarrow> state rand" where
  "dataset_loop api start msRange seedOffset 0 st = return_rand st"
| "dataset_loop api start msRange seedOffset (Suc k) st =
     bind_rand (dataset_row api start msRange seedOffset) (\<lambda>r.
       dataset_loop api start msRange seedOffset k (st\<lparr>DATASET := DATASET st @ [r]\<rparr>))"

definition generateDataset :: "date_api \<Rightarrow> nat \<Rightarrow> int \<Rightarrow> state \<Rightarrow> state rand" where
  "generateDataset api n seedOffset st =
     (let st0 = st\<lparr>DATASET := []\<rparr>;
          start = setFullYear api (newDate api 0) (getFullYear api (newDate api 0) - 2);
          msRange = newDate api 1 - start
      in bind_rand (dataset_loop api start msRange seedOffset n st0) (\<lambda>st1.
           return_rand (computePerLocationStats (computeGlobalQuartilesAndLabels st1))))"

text \<open>One iteration of the loop of \<open>generateChunkAndAppend\<close>.\<close>

definition draw_weather :: "string option rand" where
  "draw_weather =
     bind_rand Math_random (\<lambda>r4.
       if r4 < 0.65 then return_rand (Some ''Clear'')
       else bind_rand Math_random (\<lambda>r5.
              return_rand (js_index weatherTypes \<lfloor>r5 * real (length weatherTypes)\<rfloor>)))"

definition chunk_row :: "date_api \<Rightarrow> int \<Rightarrow> int \<Rightarrow> row rand" where
  "chunk_row api start msRange =
     bind_rand Math_random (\<lambda>r1.
     let randMs = \<lfloor>r1 * real_of_int msRange\<rfloor>;
         dt = start + randMs;
         mon = getMonth api dt + 1;
         dateStr = take 10 (toISOString api dt);
         dow = getDay api dt
     in
     bind_rand Math_random (\<lambda>r2.
     let h = \<lfloor>r2 * (21 - 6 + 1)\<rfloor> + 6 in
     bind_rand Math_random (\<lambda>r3.
     let loc = js_index LOCATIONS \<lfloor>r3 * real (length LOCATIONS)\<rfloor> in
     bind_rand draw_weather (\<lambda>w.
     bind_rand Math_random (\<lambda>r6.
     let temp = map_option (\<lambda>b. b + (r6 * 4 - 2)) (js_index base_temp_by_month (int mon - 1)) in
     bind_rand (draw_festival dateStr) (\<lambda>fest.
     let hol = (if dow = 0 \<or> dow = 6 then 1 else 0) in
     bind_rand (computeFootfallSample loc h w temp fest hol) (\<lambda>f.
     return_rand
       \<lparr>datetime = toISOString api dt, date = dateStr, day_of_week = dow, month = mon,
        hour = h, location = loc, weather = w, temperature = map_option toFixed1 temp,
        is_festival = fest, is_holiday = hol, footfall = f,
        density_label = None, density_int = None\<rparr>)))))))"

fun chunk_loop :: "date_api \<Rightarrow> int \<Rightarrow> int \<Rightarrow> nat \<Rightarrow> state \<Rightarrow> state rand" where
  "chunk_loop api start msRange 0 st = return_rand st"
| "chunk_loop api start msRange (Suc k) st =
     bind_rand (chunk_row api start msRange) (\<lambda>r.
       chunk_loop api start msRange k (st\<lparr>DATASET := DATASET st @ [r]\<rparr>))"

definition generateChunkAndAppend :: "date_api \<Rightarrow> nat \<Rightarrow> state \<Rightarrow> state rand" where
  "generateChunkAndAppend api n st =
     (let now = newDate api 0;
          start = makeDate api (getFullYear api now - 2) (getMonth api now) (getDate api now);
          msRange = now - start
      in chunk_loop api start msRange n st)"

text \<open>The invariant of a corpus row.\<close>

definition row_ok :: "row \<Rightarrow> bool" where
  "row_ok r = (6 \<le> hour r \<and> hour r \<le> 21 \<and> 0 \<le> footfall r \<and> location r \<in> Some ` set LOCATIONS)"

subsection \<open>Example data\<close>

text \<open>An unlabeled observation on a Monday in June, and a state holding a corpus.\<close>

definition observation :: "int \<Rightarrow> string \<Rightarrow> int \<Rightarrow> row" where
  "observation h loc f =
     \<lparr>datetime = ''2024-06-03T10:00:00.000Z'', date = ''2024-06-03'', day_of_week = 1,
      month = 6, hour = h, location = Some loc, weather = Some ''Clear'',
      temperature = Some 28, is_festival = 0, is_holiday = 0, footfall = f,
      density_label = None, density_int = None\<rparr>"

definition corpus_state :: "row list \<Rightarrow> state" where
  "corpus_state rows = init_state\<lparr>DATASET := rows\<rparr>"

definition quartile_state :: "int \<Rightarrow> int \<Rightarrow> int \<Rightarrow> state" where
  "quartile_state a b c = init_state\<lparr>QUARTILES := Some \<lparr>q1 = a, q2 = b, q3 = c\<rparr>\<rparr>"

text \<open>
  A stub of \<open>Date\<close> for the examples: the clock stands at 3 June 2024, a Monday, and every
  timestamp falls on that day.
\<close>

definition stub_date :: date_api where
  "stub_date =
     \<lparr>newDate = (\<lambda>k. 1717408800000), getFullYear = (\<lambda>t. 2024), getMonth = (\<lambda>t. 5),
      getDate = (\<lambda>t. 3), getDay = (\<lambda>t. 1),
      setFullYear = (\<lambda>t y. t - 63072000000), makeDate = (\<lambda>y m d. 1654214400000),
      toISOString = (\<lambda>t. ''2024-06-03T10:00:00.000Z'')\<rparr>"

text \<open>Two sequences of draws that differ in the draw for the hour.\<close>

definition draws_a :: "real list" where
  "draws_a = [1 / 2, 1 / 2, 1 / 2, 1 / 2, 1 / 2, 1 / 2, 1 / 2, 1 / 2, 1 / 4]"

definition draws_b :: "real list" where
  "draws_b = [1 / 2, 1 / 8, 1 / 2, 1 / 2, 1 / 2, 1 / 2, 1 / 2, 1 / 2, 1 / 4]"

text \<open>A corpus in which the hours 8 and 9 of one location have the same average.\<close>

definition tie_corpus :: "row list" where
  "tie_corpus = [observation 9 ''KRS_Dam'' 100, observation 8 ''KRS_Dam'' 150,
                 observation 10 ''KRS_Dam'' 301, observation 9 ''KRS_Dam'' 200,
                 observation 10 ''KRS_Dam'' 300, observation 7 ''Mysore_Zoo'' 900]"

subsection \<open>Properties of computations over the uniform source\<close>

text \<open>Every draw is in \<open>[0, 1)\<close>, as \<open>Math.random\<close> promises.\<close>

definition unit_draws :: "real list \<Rightarrow> bool" where
  "unit_draws src = (\<forall>r\<in>set src. 0 \<le> r \<and> r < 1)"

text \<open>On such a source, a result of \<open>m\<close> satisfies \<open>P\<close> and leaves such a source.\<close>

definition draws_ok :: "('a \<Rightarrow> bool) \<Rightarrow> 'a rand \<Rightarrow> bool" where
  "draws_ok P m =
     (\<forall>src x src'. unit_draws src \<longrightarrow> m src = Some (x, src') \<longrightarrow> P x \<and> unit_draws src')"

text \<open>On a source of non-zero draws, \<open>m\<close> returns after at most \<open>k\<close> draws.\<close>

definition returns_within :: "nat \<Rightarrow> 'a rand \<Rightarrow> bool" where
  "returns_within k m =
     (\<forall>src. (\<forall>r\<in>set src. r \<noteq> 0) \<longrightarrow> k \<le> length src \<longrightarrow>
        (\<exists>x src'. m src = Some (x, src') \<and> length src \<le> length src' + k \<and>
           set src' \<subseteq> set src))"

text \<open>The result of \<open>m\<close> depends on the draws it consumes and on nothing after them.\<close>

definition framed :: "'a rand \<Rightarrow> bool" where
  "framed m =
     (\<forall>src x src'. m src = Some (x, src') \<longrightarrow>
        (\<exists>used. src = used @ src' \<and> (\<forall>rest. m (used @ rest) = Some (x, rest))))"

definition appended :: "nat \<Rightarrow> state \<Rightarrow> state \<Rightarrow> bool" where
  "appended n st st' =
     (\<exists>new. DATASET st' = DATASET st @ new \<and> length new = n \<and> (\<forall>r\<in>set new. row_ok r))"

definition corpus_ok :: "nat \<Rightarrow> state \<Rightarrow> bool" where
  "corpus_ok n st = (length (DATASET st) = n \<and> (\<forall>r\<in>set (DATASET st). row_ok r))"

subsection \<open>Rounding error\<close>



subsection \<open>Notions for the hour aggregator\<close>

definition group_hours :: "row list \<Rightarrow> string \<Rightarrow> int set" where
  "group_hours ds loc = hour ` {r \<in> set ds. location r = Some loc}"

text \<open>What the two accumulators hold after the pass over \<open>ds\<close>.\<close>

definition buckets_of :: "row list \<Rightarrow> string \<Rightarrow> int js_object \<times> nat js_object \<Rightarrow> bool" where
  "buckets_of ds loc acc =
     (case acc of (hb, cn) \<Rightarrow>
        distinct (map fst hb) \<and>
        (\<forall>h. map_of hb h = (if h \<in> group_hours ds loc
                             then Some (sum_list (spec_group ds loc h)) else None)) \<and>
        (\<forall>h. map_of cn h = (if h \<in> group_hours ds loc
                             then Some (length (spec_group ds loc h)) else None)))"

definition rank_key :: "int \<times> int \<Rightarrow> int \<times> int" where
  "rank_key e = (- snd e, fst e)"

definition rounded_mean :: "row list \<Rightarrow> string \<Rightarrow> int \<Rightarrow> int \<times> int" where
  "rounded_mean ds loc h = (h, round (spec_mean (spec_group ds loc h)))"

section \<open>The footfall model\<close>

subsection \<open>Rounding to a double\<close>
















subsection \<open>The code's factors against the specification's\<close>
























section \<open>The quantile engine\<close>

lemma sort_key_eq_Nil: "sort_key f xs = [] \<longleftrightarrow> xs = []"
  by (metis length_sort length_0_conv)

lemma floor_quarter: "nat \<lfloor>real n / 4\<rfloor> = n div 4"
proof -
  have "\<lfloor>real n / real 4\<rfloor> = int (n div 4)"
    by (simp only: floor_divide_of_nat_eq)
  then show ?thesis by simp
qed

lemma floor_half: "nat \<lfloor>real n / 2\<rfloor> = n div 2"
proof -
  have "\<lfloor>real n / real 2\<rfloor> = int (n div 2)"
    by (simp only: floor_divide_of_nat_eq)
  then show ?thesis by simp
qed

lemma floor_three_quarters: "nat \<lfloor>real n * 3 / 4\<rfloor> = (3 * n) div 4"
proof -
  have "\<lfloor>real (3 * n) / real 4\<rfloor> = int ((3 * n) div 4)"
    by (simp only: floor_divide_of_nat_eq)
  then show ?thesis by (simp add: mult.commute)
qed

lemmas floor_ranks = floor_quarter floor_half floor_three_quarters

lemma rank_bounds:
  "n div 4 \<le> n div 2" "n div 2 \<le> (3 * n) div 4" "0 < n \<Longrightarrow> (3 * n) div 4 < (n::nat)"
  by linarith+

lemma global_quartiles:
  "QUARTILES (computeGlobalQuartilesAndLabels st)
     = Some (spec_compute_quartiles (map footfall (DATASET st)))"
  by (simp add: computeGlobalQuartilesAndLabels_def spec_compute_quartiles_def Let_def
      floor_ranks sort_key_eq_Nil)

lemma fold_upd_lookup:
  "fold (\<lambda>k m. m(k \<mapsto> g k)) ks m0 k = (if k \<in> set ks then Some (g k) else m0 k)"
  by (induction ks arbitrary: m0) auto

lemma per_location_lookup:
  "PER_LOCATION_STATS (computePerLocationStats st) loc =
     (if loc \<in> set LOCATIONS then Some (locationStats (DATASET st) loc) else None)"
  by (simp add: computePerLocationStats_def fold_upd_lookup)

lemma location_quartiles:
  "q1 (locationStats ds loc)
     = q1 (spec_compute_quartiles (map footfall (filter (\<lambda>d. location d = Some loc) ds)))"
  "q2 (locationStats ds loc)
     = q2 (spec_compute_quartiles (map footfall (filter (\<lambda>d. location d = Some loc) ds)))"
  "q3 (locationStats ds loc)
     = q3 (spec_compute_quartiles (map footfall (filter (\<lambda>d. location d = Some loc) ds)))"
  by (simp_all add: locationStats_def spec_compute_quartiles_def Let_def floor_ranks
      sort_key_eq_Nil split: prod.splits)

lemma spec_quartiles_nth:
  assumes "xs \<noteq> []"
  shows "q1 (spec_compute_quartiles xs) = sort xs ! (length xs div 4)"
    and "q2 (spec_compute_quartiles xs) = sort xs ! (length xs div 2)"
    and "q3 (spec_compute_quartiles xs) = sort xs ! ((3 * length xs) div 4)"
  using assms by (simp_all add: spec_compute_quartiles_def Let_def floor_ranks)

lemma spec_quartiles_ordered:
  "q1 (spec_compute_quartiles xs) \<le> q2 (spec_compute_quartiles xs) \<and>
   q2 (spec_compute_quartiles xs) \<le> q3 (spec_compute_quartiles xs)"
proof (cases "xs = []")
  case True
  then show ?thesis by (simp add: spec_compute_quartiles_def)
next
  case False
  have s: "sorted (sort xs)" by simp
  have n: "0 < length xs" using False by simp
  have b: "(3 * length xs) div 4 < length (sort xs)" using rank_bounds(3) [OF n] by simp
  have "sort xs ! (length xs div 4) \<le> sort xs ! (length xs div 2)"
    using rank_bounds(1,2) [of "length xs"] b by (intro sorted_nth_mono [OF s]) linarith+
  moreover have "sort xs ! (length xs div 2) \<le> sort xs ! ((3 * length xs) div 4)"
    using rank_bounds(2) [of "length xs"] b by (intro sorted_nth_mono [OF s]) linarith+
  ultimately show ?thesis using False by (simp add: spec_quartiles_nth)
qed

text \<open>
  C2. The global quartiles are \<open>spec_compute_quartiles\<close> of the footfall column, the
  quartiles of a known location are \<open>spec_compute_quartiles\<close> of that location's
  footfalls; the empty sample gives \<open>{0,0,0}\<close>; on a non-empty sample of length \<open>n\<close> the
  result is read from the ascending permutation of the sample at the ranks
  \<open>floor(n * 0.25)\<close>, \<open>floor(n * 0.50)\<close>, \<open>floor(n * 0.75)\<close>, all of them below \<open>n\<close>.
\<close>

theorem quartiles_nearest_rank:
  "QUARTILES (computeGlobalQuartilesAndLabels st)
     = Some (spec_compute_quartiles (map footfall (DATASET st))) \<and>
   (loc \<in> set LOCATIONS \<longrightarrow>
      (\<exists>ls. PER_LOCATION_STATS (computePerLocationStats st) loc = Some ls \<and>
         \<lparr>q1 = q1 ls, q2 = q2 ls, q3 = q3 ls\<rparr>
           = spec_compute_quartiles
               (map footfall (filter (\<lambda>d. location d = Some loc) (DATASET st))))) \<and>
   spec_compute_quartiles [] = \<lparr>q1 = 0, q2 = 0, q3 = 0\<rparr> \<and>
   (xs \<noteq> [] \<longrightarrow>
      sorted (sort xs) \<and> mset (sort xs) = mset xs \<and>
      nat \<lfloor>real (length xs) * 0.25\<rfloor> < length xs \<and>
      nat \<lfloor>real (length xs) * 0.50\<rfloor> < length xs \<and>
      nat \<lfloor>real (length xs) * 0.75\<rfloor> < length xs \<and>
      q1 (spec_compute_quartiles xs) = sort xs ! nat \<lfloor>real (length xs) * 0.25\<rfloor> \<and>
      q2 (spec_compute_quartiles xs) = sort xs ! nat \<lfloor>real (length xs) * 0.50\<rfloor> \<and>
      q3 (spec_compute_quartiles xs) = sort xs ! nat \<lfloor>real (length xs) * 0.75\<rfloor>)"
proof (intro conjI impI)
  show "QUARTILES (computeGlobalQuartilesAndLabels st)
          = Some (spec_compute_quartiles (map footfall (DATASET st)))"
    by (rule global_quartiles)
  show "spec_compute_quartiles [] = \<lparr>q1 = 0, q2 = 0, q3 = 0\<rparr>"
    by (simp add: spec_compute_quartiles_def)
next
  assume "loc \<in> set LOCATIONS"
  then have "PER_LOCATION_STATS (computePerLocationStats st) loc
               = Some (locationStats (DATASET st) loc)"
    by (simp add: per_location_lookup)
  then show "\<exists>ls. PER_LOCATION_STATS (computePerLocationStats st) loc = Some ls \<and>
         \<lparr>q1 = q1 ls, q2 = q2 ls, q3 = q3 ls\<rparr>
           = spec_compute_quartiles
               (map footfall (filter (\<lambda>d. location d = Some loc) (DATASET st)))"
    by (simp add: location_quartiles)
next
  assume ne: "xs \<noteq> []"
  then have n: "0 < length xs" by simp
  show "sorted (sort xs)" by simp
  show "mset (sort xs) = mset xs" by simp
  show "nat \<lfloor>real (length xs) * 0.25\<rfloor> < length xs"
    using rank_bounds [of "length xs"] n by (simp add: floor_ranks)
  show "nat \<lfloor>real (length xs) * 0.50\<rfloor> < length xs"
    using rank_bounds [of "length xs"] n by (simp add: floor_ranks)
  show "nat \<lfloor>real (length xs) * 0.75\<rfloor> < length xs"
    using rank_bounds [of "length xs"] n by (simp add: floor_ranks)
  show "q1 (spec_compute_quartiles xs) = sort xs ! nat \<lfloor>real (length xs) * 0.25\<rfloor>"
    using ne by (simp add: spec_quartiles_nth floor_ranks)
  show "q2 (spec_compute_quartiles xs) = sort xs ! nat \<lfloor>real (length xs) * 0.50\<rfloor>"
    using ne by (simp add: spec_quartiles_nth floor_ranks)
  show "q3 (spec_compute_quartiles xs) = sort xs ! nat \<lfloor>real (length xs) * 0.75\<rfloor>"
    using ne by (simp add: spec_quartiles_nth floor_ranks)
qed

text \<open>
  The sample 30, 10, 40, 20 has the quartiles 20, 30, 40; a known location without
  observations has the quartiles 0, 0, 0.
\<close>

theorem quartiles_nearest_rank_witness:
  "''Mysore_Zoo'' \<in> set LOCATIONS \<and> [30, 10, 40, 20 :: int] \<noteq> [] \<and>
   q1 (spec_compute_quartiles [30, 10, 40, 20]) = 20 \<and>
   q2 (spec_compute_quartiles [30, 10, 40, 20]) = 30 \<and>
   q3 (spec_compute_quartiles [30, 10, 40, 20]) = 40 \<and>
   (\<exists>ls. PER_LOCATION_STATS (computePerLocationStats init_state) ''Mysore_Zoo'' = Some ls \<and>
      q1 ls = 0 \<and> q2 ls = 0 \<and> q3 ls = 0)"
proof -
  have l: "''Mysore_Zoo'' \<in> set LOCATIONS" by (simp add: LOCATIONS_def)
  have d: "DATASET init_state = []" by (simp add: init_state_def)
  show ?thesis
    using l quartiles_nearest_rank [of init_state "''Mysore_Zoo''" "[30, 10, 40, 20]"]
    by (auto simp: d)
qed

text \<open>
  C6. Every quartile set the code computes is non-decreasing: the global one, and the one
  of every known location, for every corpus (the empty one included).
\<close>

theorem quartiles_non_decreasing:
  "(\<exists>q. QUARTILES (computeGlobalQuartilesAndLabels st) = Some q \<and>
        q1 q \<le> q2 q \<and> q2 q \<le> q3 q) \<and>
   (loc \<in> set LOCATIONS \<longrightarrow>
      (\<exists>ls. PER_LOCATION_STATS (computePerLocationStats st) loc = Some ls \<and>
         q1 ls \<le> q2 ls \<and> q2 ls \<le> q3 ls))"
  using spec_quartiles_ordered
  by (simp add: global_quartiles per_location_lookup location_quartiles)

theorem quartiles_non_decreasing_witness:
  "''KRS_Dam'' \<in> set LOCATIONS \<and>
   (\<exists>ls. PER_LOCATION_STATS
           (computePerLocationStats
              (corpus_state [observation 9 ''KRS_Dam'' 120, observation 10 ''KRS_Dam'' 80]))
           ''KRS_Dam'' = Some ls \<and>
         q1 ls \<le> q2 ls \<and> q2 ls \<le> q3 ls)"
proof -
  have l: "''KRS_Dam'' \<in> set LOCATIONS" by (simp add: LOCATIONS_def)
  show ?thesis
    using l quartiles_non_decreasing
      [of "corpus_state [observation 9 ''KRS_Dam'' 120, observation 10 ''KRS_Dam'' 80]"
          "''KRS_Dam''"]
    by simp
qed

section \<open>The density classifier\<close>

text \<open>
  C1. Under a quartile set \<open>q1 \<le> q2 \<le> q3\<close>, \<open>mapToDensityLabel\<close> returns \<open>Low\<close> for
  \<open>f \<le> q1\<close>, \<open>Medium\<close> for \<open>q1 < f \<le> q2\<close>, \<open>High\<close> for \<open>q2 < f \<le> q3\<close> and
  \<open>Very_High\<close> for \<open>f > q3\<close>: a boundary value belongs to the lower tier. The quartiles
  that \<open>computeGlobalQuartilesAndLabels\<close> stores, the only ones the code ever stores,
  are such a set, so there the four cases hold as they stand.
\<close>

theorem mapToDensityLabel_tiers:
  "(QUARTILES st = Some q \<and> q1 q \<le> q2 q \<and> q2 q \<le> q3 q \<longrightarrow>
      (f \<le> q1 q \<longrightarrow> mapToDensityLabel st f = Low) \<and>
      (q1 q < f \<and> f \<le> q2 q \<longrightarrow> mapToDensityLabel st f = Medium) \<and>
      (q2 q < f \<and> f \<le> q3 q \<longrightarrow> mapToDensityLabel st f = High) \<and>
      (q3 q < f \<longrightarrow> mapToDensityLabel st f = Very_High)) \<and>
   (\<exists>c. QUARTILES (computeGlobalQuartilesAndLabels st0) = Some c \<and>
      (f \<le> q1 c \<longrightarrow> mapToDensityLabel (computeGlobalQuartilesAndLabels st0) f = Low) \<and>
      (q1 c < f \<and> f \<le> q2 c \<longrightarrow>
         mapToDensityLabel (computeGlobalQuartilesAndLabels st0) f = Medium) \<and>
      (q2 c < f \<and> f \<le> q3 c \<longrightarrow>
         mapToDensityLabel (computeGlobalQuartilesAndLabels st0) f = High) \<and>
      (q3 c < f \<longrightarrow> mapToDensityLabel (computeGlobalQuartilesAndLabels st0) f = Very_High))"
proof (intro conjI)
  show "QUARTILES st = Some q \<and> q1 q \<le> q2 q \<and> q2 q \<le> q3 q \<longrightarrow>
      (f \<le> q1 q \<longrightarrow> mapToDensityLabel st f = Low) \<and>
      (q1 q < f \<and> f \<le> q2 q \<longrightarrow> mapToDensityLabel st f = Medium) \<and>
      (q2 q < f \<and> f \<le> q3 q \<longrightarrow> mapToDensityLabel st f = High) \<and>
      (q3 q < f \<longrightarrow> mapToDensityLabel st f = Very_High)"
    by (auto simp: mapToDensityLabel_def)
  let ?c = "spec_compute_quartiles (map footfall (DATASET st0))"
  have "q1 ?c \<le> q2 ?c" "q2 ?c \<le> q3 ?c"
    using spec_quartiles_ordered [of "map footfall (DATASET st0)"] by simp_all
  then show "\<exists>c. QUARTILES (computeGlobalQuartilesAndLabels st0) = Some c \<and>
      (f \<le> q1 c \<longrightarrow> mapToDensityLabel (computeGlobalQuartilesAndLabels st0) f = Low) \<and>
      (q1 c < f \<and> f \<le> q2 c \<longrightarrow>
         mapToDensityLabel (computeGlobalQuartilesAndLabels st0) f = Medium) \<and>
      (q2 c < f \<and> f \<le> q3 c \<longrightarrow>
         mapToDensityLabel (computeGlobalQuartilesAndLabels st0) f = High) \<and>
      (q3 c < f \<longrightarrow> mapToDensityLabel (computeGlobalQuartilesAndLabels st0) f = Very_High)"
    by (auto simp: mapToDensityLabel_def global_quartiles)
qed

text \<open>The boundary test of the specification: quartiles 100, 200, 300.\<close>

theorem mapToDensityLabel_tiers_witness:
  "QUARTILES (quartile_state 100 200 300) = Some \<lparr>q1 = 100, q2 = 200, q3 = 300\<rparr> \<and>
   mapToDensityLabel (quartile_state 100 200 300) 100 = Low \<and>
   mapToDensityLabel (quartile_state 100 200 300) 101 = Medium \<and>
   mapToDensityLabel (quartile_state 100 200 300) 300 = High \<and>
   mapToDensityLabel (quartile_state 100 200 300) 301 = Very_High"
proof -
  have q: "QUARTILES (quartile_state 100 200 300) = Some \<lparr>q1 = 100, q2 = 200, q3 = 300\<rparr>"
    by (simp add: quartile_state_def init_state_def)
  show ?thesis
    using q
      mapToDensityLabel_tiers [of "quartile_state 100 200 300" "\<lparr>q1 = 100, q2 = 200, q3 = 300\<rparr>" 100]
      mapToDensityLabel_tiers [of "quartile_state 100 200 300" "\<lparr>q1 = 100, q2 = 200, q3 = 300\<rparr>" 101]
      mapToDensityLabel_tiers [of "quartile_state 100 200 300" "\<lparr>q1 = 100, q2 = 200, q3 = 300\<rparr>" 300]
      mapToDensityLabel_tiers [of "quartile_state 100 200 300" "\<lparr>q1 = 100, q2 = 200, q3 = 300\<rparr>" 301]
    by simp
qed

text \<open>
  C5. \<open>mapToDensityLabel\<close> is monotone: under fixed quartiles, \<open>a \<le> b\<close> gives labels
  whose ranks (Low 0, Medium 1, High 2, Very_High 3) are in the same order.
\<close>

theorem mapToDensityLabel_mono:
  assumes "QUARTILES st = Some q" and "a \<le> b"
  shows "\<exists>ra rb. density_rank (mapToDensityLabel st a) = Some ra \<and>
                 density_rank (mapToDensityLabel st b) = Some rb \<and> ra \<le> rb"
  using assms by (auto simp: mapToDensityLabel_def density_rank_def)

theorem mapToDensityLabel_mono_witness:
  "QUARTILES (quartile_state 100 200 300) = Some \<lparr>q1 = 100, q2 = 200, q3 = 300\<rparr> \<and>
   (150::int) \<le> 250 \<and>
   (\<exists>ra rb. density_rank (mapToDensityLabel (quartile_state 100 200 300) 150) = Some ra \<and>
            density_rank (mapToDensityLabel (quartile_state 100 200 300) 250) = Some rb \<and>
            ra \<le> rb)"
proof -
  have q: "QUARTILES (quartile_state 100 200 300) = Some \<lparr>q1 = 100, q2 = 200, q3 = 300\<rparr>"
    by (simp add: quartile_state_def init_state_def)
  have le: "(150::int) \<le> 250" by simp
  show ?thesis using q le mapToDensityLabel_mono [OF q le] by simp
qed

text \<open>
  C8. While \<open>QUARTILES\<close> is still \<open>null\<close>, \<open>mapToDensityLabel\<close> returns the label
  \<open>Unknown\<close> for every footfall: a value of its own, none of the four tiers, and without
  a rank.
\<close>

theorem mapToDensityLabel_uninitialized:
  assumes "QUARTILES st = None"
  shows "mapToDensityLabel st f = Unknown \<and>
         mapToDensityLabel st f \<notin> {Low, Medium, High, Very_High} \<and>
         density_rank (mapToDensityLabel st f) = None"
  using assms by (simp add: mapToDensityLabel_def density_rank_def)

theorem mapToDensityLabel_uninitialized_witness:
  "QUARTILES init_state = None \<and> mapToDensityLabel init_state 1680 = Unknown"
proof -
  have n: "QUARTILES init_state = None" by (simp add: init_state_def)
  show ?thesis using n mapToDensityLabel_uninitialized [OF n, of 1680] by simp
qed

section \<open>Bulk labelling and the standalone classifier\<close>

lemma label_row_eq:
  "QUARTILES st = Some \<lparr>q1 = a, q2 = b, q3 = c\<rparr> \<Longrightarrow>
   label_row a b c r = r\<lparr>density_label := Some (mapToDensityLabel st (footfall r)),
                         density_int := density_rank (mapToDensityLabel st (footfall r))\<rparr>"
  by (simp add: label_row_def mapToDensityLabel_def Let_def)

lemma labels_agree:
  assumes "r \<in> set (DATASET (computeGlobalQuartilesAndLabels st))"
  shows "density_label r
           = Some (mapToDensityLabel (computeGlobalQuartilesAndLabels st) (footfall r)) \<and>
         density_int r
           = density_rank (mapToDensityLabel (computeGlobalQuartilesAndLabels st) (footfall r))"
proof (cases "DATASET st = []")
  case True
  then show ?thesis using assms by (simp add: computeGlobalQuartilesAndLabels_def)
next
  case False
  define st' where "st' = computeGlobalQuartilesAndLabels st"
  obtain a b c where q: "QUARTILES st' = Some \<lparr>q1 = a, q2 = b, q3 = c\<rparr>"
    and d: "DATASET st' = map (label_row a b c) (DATASET st)"
    using False
    by (simp add: st'_def computeGlobalQuartilesAndLabels_def Let_def sort_key_eq_Nil)
  from assms d obtain r0 where "r = label_row a b c r0" by (auto simp: st'_def)
  then have "r = r0\<lparr>density_label := Some (mapToDensityLabel st' (footfall r0)),
                    density_int := density_rank (mapToDensityLabel st' (footfall r0))\<rparr>"
    using label_row_eq [OF q] by simp
  then show ?thesis unfolding st'_def by simp
qed

lemma labelling_keeps_footfall:
  "map footfall (DATASET (computeGlobalQuartilesAndLabels st)) = map footfall (DATASET st)"
  by (simp add: computeGlobalQuartilesAndLabels_def Let_def label_row_def comp_def)

text \<open>
  C10. After \<open>computeGlobalQuartilesAndLabels\<close> every row carries the label that
  \<open>mapToDensityLabel\<close> returns for its footfall under the quartiles just stored, and the
  rank of that label under Low 0, Medium 1, High 2, Very_High 3; the footfall column is
  unchanged, so these are the quartiles of the labelled corpus.
\<close>

theorem bulk_labels_match_classifier:
  assumes "r \<in> set (DATASET (computeGlobalQuartilesAndLabels st))"
  shows "density_label r
           = Some (mapToDensityLabel (computeGlobalQuartilesAndLabels st) (footfall r)) \<and>
         density_int r
           = density_rank (mapToDensityLabel (computeGlobalQuartilesAndLabels st) (footfall r)) \<and>
         density_int r \<in> {Some 0, Some 1, Some 2, Some 3} \<and>
         density_rank Low = Some 0 \<and> density_rank Medium = Some 1 \<and>
         density_rank High = Some 2 \<and> density_rank Very_High = Some 3 \<and>
         map footfall (DATASET (computeGlobalQuartilesAndLabels st)) = map footfall (DATASET st)"
proof -
  have ne: "DATASET st \<noteq> []"
    using assms by (auto simp: computeGlobalQuartilesAndLabels_def)
  then obtain q where "QUARTILES (computeGlobalQuartilesAndLabels st) = Some q"
    by (simp add: global_quartiles)
  then have "density_rank (mapToDensityLabel (computeGlobalQuartilesAndLabels st) (footfall r))
               \<in> {Some 0, Some 1, Some 2, Some 3}"
    by (simp add: mapToDensityLabel_def density_rank_def)
  then show ?thesis
    using labels_agree [OF assms] labelling_keeps_footfall [of st]
    by (simp add: density_rank_def)
qed

text \<open>
  Footfalls 10, 20, 30, 40 have the quartiles 20, 30, 40: the row with footfall 30 is
  labelled Medium, rank 1.
\<close>

theorem bulk_labels_match_classifier_witness:
  "DATASET (computeGlobalQuartilesAndLabels
      (corpus_state [observation 9 ''KRS_Dam'' 10, observation 10 ''KRS_Dam'' 20,
                     observation 11 ''KRS_Dam'' 30, observation 12 ''KRS_Dam'' 40])) ! 2
     \<in> set (DATASET (computeGlobalQuartilesAndLabels
      (corpus_state [observation 9 ''KRS_Dam'' 10, observation 10 ''KRS_Dam'' 20,
                     observation 11 ''KRS_Dam'' 30, observation 12 ''KRS_Dam'' 40]))) \<and>
   density_label (DATASET (computeGlobalQuartilesAndLabels
      (corpus_state [observation 9 ''KRS_Dam'' 10, observation 10 ''KRS_Dam'' 20,
                     observation 11 ''KRS_Dam'' 30, observation 12 ''KRS_Dam'' 40])) ! 2)
     = Some Medium \<and>
   density_int (DATASET (computeGlobalQuartilesAndLabels
      (corpus_state [observation 9 ''KRS_Dam'' 10, observation 10 ''KRS_Dam'' 20,
                     observation 11 ''KRS_Dam'' 30, observation 12 ''KRS_Dam'' 40])) ! 2)
     = Some 1"
proof -
  define st where "st = computeGlobalQuartilesAndLabels
      (corpus_state [observation 9 ''KRS_Dam'' 10, observation 10 ''KRS_Dam'' 20,
                     observation 11 ''KRS_Dam'' 30, observation 12 ''KRS_Dam'' 40])"
  have len: "length (DATASET st) = 4"
    using arg_cong [OF labelling_keeps_footfall, of length]
    by (simp add: st_def corpus_state_def)
  then have m: "DATASET st ! 2 \<in> set (DATASET st)" by simp
  have f: "footfall (DATASET st ! 2) = 30"
  proof -
    have "map footfall (DATASET st) ! 2 = 30"
      unfolding st_def labelling_keeps_footfall
      by (simp add: corpus_state_def observation_def)
    then show ?thesis using len by simp
  qed
  have q: "QUARTILES st = Some \<lparr>q1 = 20, q2 = 30, q3 = 40\<rparr>"
    unfolding st_def global_quartiles
    by (simp add: corpus_state_def observation_def spec_compute_quartiles_def)
  have "mapToDensityLabel st 30 = Medium"
    by (simp add: mapToDensityLabel_def q)
  then show ?thesis
    using m f bulk_labels_match_classifier [OF m [unfolded st_def]]
    unfolding st_def [symmetric] by simp
qed

section \<open>The hour aggregator\<close>

lemma js_or_zero: "js_or v 0 = (case v of None \<Rightarrow> 0 | Some x \<Rightarrow> x)"
  by (simp add: js_or_def split: option.splits)

lemma map_of_obj_set: "map_of (obj_set obj k v) = (map_of obj)(k \<mapsto> v)"
  by (induction obj k v rule: obj_set.induct) auto

lemma keys_obj_set:
  "map fst (obj_set obj k v) = (if k \<in> set (map fst obj) then map fst obj else map fst obj @ [k])"
  by (induction obj k v rule: obj_set.induct) auto

lemma distinct_obj_set: "distinct (map fst obj) \<Longrightarrow> distinct (map fst (obj_set obj k v))"
  by (simp add: keys_obj_set)

lemma group_hours_snoc:
  "group_hours (ds @ [r]) loc =
     (if location r = Some loc then insert (hour r) (group_hours ds loc)
      else group_hours ds loc)"
  by (auto simp: group_hours_def)

lemma spec_group_snoc:
  "spec_group (ds @ [r]) loc h =
     (if location r = Some loc \<and> hour r = h then spec_group ds loc h @ [footfall r]
      else spec_group ds loc h)"
  by (simp add: spec_group_def)

lemma spec_group_empty: "h \<notin> group_hours ds loc \<Longrightarrow> spec_group ds loc h = []"
  by (auto simp: spec_group_def group_hours_def filter_empty_conv)

lemma buckets_fold: "buckets_of ds loc (fold (bucket_step loc) ds ([], []))"
proof (induction ds rule: rev_induct)
  case Nil
  show ?case by (simp add: buckets_of_def group_hours_def)
next
  case (snoc r ds)
  obtain hb cn where acc: "fold (bucket_step loc) ds ([], []) = (hb, cn)"
    by (cases "fold (bucket_step loc) ds ([], [])")
  from snoc acc have d: "distinct (map fst hb)"
    and hb: "\<And>h. map_of hb h = (if h \<in> group_hours ds loc
                               then Some (sum_list (spec_group ds loc h)) else None)"
    and cn: "\<And>h. map_of cn h = (if h \<in> group_hours ds loc
                               then Some (length (spec_group ds loc h)) else None)"
    by (simp_all add: buckets_of_def)
  have step: "fold (bucket_step loc) (ds @ [r]) ([], []) = bucket_step loc r (hb, cn)"
    by (simp add: acc)
  show ?case
  proof (cases "location r = Some loc")
    case False
    then show ?thesis using d hb cn
      unfolding step by (simp add: bucket_step_def buckets_of_def group_hours_snoc spec_group_snoc)
  next
    case True
    then show ?thesis using d hb cn
      unfolding step
      by (auto simp: bucket_step_def buckets_of_def group_hours_snoc spec_group_snoc
          obj_get_def js_or_zero map_of_obj_set distinct_obj_set spec_group_empty)
  qed
qed

lemma keys_of_buckets:
  assumes "buckets_of ds loc (hb, cn)"
  shows "set (map fst hb) = group_hours ds loc"
proof -
  have "set (map fst hb) = dom (map_of hb)" by (simp add: dom_map_of_conv_image_fst)
  also have "\<dots> = group_hours ds loc"
    using assms by (auto simp: buckets_of_def dom_def)
  finally show ?thesis .
qed

lemma Object_keys_indices:
  assumes "\<forall>k\<in>set (map fst obj). is_array_index k"
  shows "Object_keys obj = sort (map fst obj)"
proof -
  have "filter is_array_index (map fst obj) = map fst obj"
    using assms by (simp add: filter_id_conv)
  moreover have "filter (\<lambda>k. \<not> is_array_index k) (map fst obj) = []"
    using assms by (simp add: filter_empty_conv)
  ultimately show ?thesis by (simp add: Object_keys_def Let_def)
qed

lemma inj_rank_key: "inj_on rank_key A"
  by (auto simp: inj_on_def rank_key_def prod_eq_iff)

lemma insort_desc_rank:
  assumes "sorted (map rank_key ys)" and "\<forall>y\<in>set ys. fst x \<le> fst y"
  shows "sorted (map rank_key (insort_key (\<lambda>e. - snd e) x ys))"
  using assms
proof (induction ys)
  case Nil
  show ?case by simp
next
  case (Cons y ys)
  show ?case
  proof (cases "- snd x \<le> - snd y")
    case True
    have xy: "rank_key x \<le> rank_key y"
      using True Cons.prems(2) by (auto simp: rank_key_def)
    moreover have "\<forall>z\<in>set ys. rank_key y \<le> rank_key z" using Cons.prems(1) by simp
    ultimately have "\<forall>z\<in>set ys. rank_key x \<le> rank_key z" by (blast intro: order_trans)
    with xy True Cons.prems(1) show ?thesis by simp
  next
    case False
    then have yx: "rank_key y \<le> rank_key x" by (auto simp: rank_key_def)
    have ih: "sorted (map rank_key (insort_key (\<lambda>e. - snd e) x ys))"
      using Cons by simp
    have "\<forall>z\<in>set ys. rank_key y \<le> rank_key z" using Cons.prems(1) by simp
    with yx have "\<forall>z\<in>set (insort_key (\<lambda>e. - snd e) x ys). rank_key y \<le> rank_key z"
      by (simp add: set_insort_key)
    with ih False show ?thesis by simp
  qed
qed

lemma stable_desc_rank:
  assumes "sorted (map fst xs)"
  shows "sorted (map rank_key (sort_key (\<lambda>e. - snd e) xs))"
  using assms
proof (induction xs)
  case Nil
  show ?case by simp
next
  case (Cons x xs)
  then have "sorted (map rank_key (sort_key (\<lambda>e. - snd e) xs))"
    and "\<forall>y\<in>set (sort_key (\<lambda>e. - snd e) xs). fst x \<le> fst y"
    by simp_all
  then show ?case by (simp add: insort_desc_rank)
qed

lemma hour_average_eq:
  assumes "buckets_of ds loc (hb, cn)" and "h \<in> group_hours ds loc"
  shows "hour_average hb cn h = rounded_mean ds loc h"
  using assms
  by (simp add: buckets_of_def hour_average_def rounded_mean_def obj_get_def Math_round_def
      round_def spec_mean_def)

lemma ranking_unique:
  fixes g :: "int \<Rightarrow> int \<times> int"
  assumes "distinct hs" and "distinct ks" and "set hs = set ks" and "sorted ks"
    and g: "\<And>h. fst (g h) = h"
  shows "sort_key (\<lambda>e. - snd e) (map g ks) = sort_key rank_key (map g hs)"
proof (rule map_sorted_distinct_set_unique [where f = rank_key])
  show "inj_on rank_key
          (set (sort_key (\<lambda>e. - snd e) (map g ks)) \<union> set (sort_key rank_key (map g hs)))"
    by (rule inj_rank_key)
  have fg: "map fst (map g ks) = ks" by (simp add: g comp_def)
  show "sorted (map rank_key (sort_key (\<lambda>e. - snd e) (map g ks)))"
    by (rule stable_desc_rank) (simp only: fg assms(4))
  have ig: "inj_on g A" for A by (metis g inj_onI)
  show "distinct (map rank_key (sort_key (\<lambda>e. - snd e) (map g ks)))"
    by (simp add: distinct_map inj_rank_key ig assms(2))
  show "sorted (map rank_key (sort_key rank_key (map g hs)))" by simp
  show "distinct (map rank_key (sort_key rank_key (map g hs)))"
    by (simp add: distinct_map inj_rank_key ig assms(1))
  show "set (sort_key (\<lambda>e. - snd e) (map g ks)) = set (sort_key rank_key (map g hs))"
    by (simp add: assms(3))
qed

lemma group_hours_list:
  "set (remdups (map hour (filter (\<lambda>r. location r = Some loc) ds))) = group_hours ds loc"
  by (auto simp: group_hours_def)

lemma topHours_refines:
  assumes idx: "\<forall>r\<in>set ds. is_array_index (hour r)"
  shows "topHours (locationStats ds loc) = spec_top_hours ds loc 5"
proof (cases "filter (\<lambda>d. location d = Some loc) ds = []")
  case True
  then show ?thesis
    by (simp add: locationStats_def spec_top_hours_def)
next
  case False
  obtain hb cn where acc: "fold (bucket_step loc) ds ([], []) = (hb, cn)"
    by (cases "fold (bucket_step loc) ds ([], [])")
  have b: "buckets_of ds loc (hb, cn)" using buckets_fold [of ds loc] by (simp add: acc)
  have keys: "set (map fst hb) = group_hours ds loc" by (rule keys_of_buckets [OF b])
  have d: "distinct (map fst hb)" using b by (simp add: buckets_of_def)
  have "\<forall>k\<in>set (map fst hb). is_array_index k"
    unfolding keys using idx by (auto simp: group_hours_def)
  then have ok: "Object_keys hb = sort (map fst hb)" by (rule Object_keys_indices)
  have avg: "map (hour_average hb cn) (Object_keys hb)
               = map (rounded_mean ds loc) (sort (map fst hb))"
    unfolding ok using keys by (intro map_cong refl hour_average_eq [OF b]) simp
  let ?hs = "remdups (map hour (filter (\<lambda>r. location r = Some loc) ds))"
  have "sort_key (\<lambda>e. - snd e) (map (rounded_mean ds loc) (sort (map fst hb)))
          = sort_key rank_key (map (rounded_mean ds loc) ?hs)"
  proof (rule ranking_unique)
    show "set ?hs = set (sort (map fst hb))"
      unfolding group_hours_list set_sort keys ..
  qed (simp_all add: rounded_mean_def d)
  with avg have "take 5 (sort_key (\<lambda>e. - snd e) (map (hour_average hb cn) (Object_keys hb)))
                  = spec_top_hours ds loc 5"
    by (simp add: spec_top_hours_def rank_key_def [abs_def] rounded_mean_def [abs_def])
  with False show ?thesis
    by (simp add: locationStats_def Let_def acc sort_key_eq_Nil)
qed

lemma spec_top_hours_entry:
  assumes "e \<in> set (spec_top_hours ds loc k)"
  shows "fst e \<in> group_hours ds loc \<and> snd e = round (spec_mean (spec_group ds loc (fst e)))"
proof -
  from assms have "e \<in> set (sort_key (\<lambda>e. (- snd e, fst e))
      (map (\<lambda>h. (h, round (spec_mean (spec_group ds loc h))))
         (remdups (map hour (filter (\<lambda>r. location r = Some loc) ds)))))"
    unfolding spec_top_hours_def Let_def by (rule in_set_takeD)
  then show ?thesis by (auto simp: group_hours_def)
qed

lemma spec_top_hours_ranked:
  "sorted_wrt (\<lambda>a b. snd b < snd a \<or> (snd a = snd b \<and> fst a < fst b)) (spec_top_hours ds loc k)"
proof -
  let ?hs = "remdups (map hour (filter (\<lambda>r. location r = Some loc) ds))"
  let ?L = "sort_key rank_key (map (rounded_mean ds loc) ?hs)"
  have "inj_on (rounded_mean ds loc) A" for A by (simp add: inj_on_def rounded_mean_def)
  then have "distinct (map rank_key ?L)"
    by (simp add: distinct_map inj_rank_key)
  moreover have "sorted (map rank_key ?L)" by simp
  ultimately have "sorted_wrt (<) (map rank_key ?L)" by (simp add: strict_sorted_iff)
  then have "sorted_wrt (\<lambda>a b. rank_key a < rank_key b) ?L" by (simp add: sorted_wrt_map)
  then have "sorted_wrt (\<lambda>a b. snd b < snd a \<or> (snd a = snd b \<and> fst a < fst b)) ?L"
    by (rule sorted_wrt_mono_rel [rotated]) (auto simp: rank_key_def)
  then have "sorted_wrt (\<lambda>a b. snd b < snd a \<or> (snd a = snd b \<and> fst a < fst b)) (take k ?L)"
    by (rule sorted_wrt_take)
  then show ?thesis
    by (simp add: spec_top_hours_def rank_key_def [abs_def] rounded_mean_def [abs_def])
qed

text \<open>
  C7. For a corpus whose hours are array indices (as the hours 6 to 21 of every generated
  row are) and a known location, \<open>topHours\<close> is \<open>spec_top_hours\<close> with \<open>k = 5\<close>: one entry
  per hour that the location has rows for, carrying the mean footfall of that hour rounded
  to a nearest integer, in descending order of the average with ties in ascending order
  of the hour, cut to at most five entries; a location without rows has the empty list.
\<close>

theorem topHours_ranking:
  assumes "\<forall>r\<in>set (DATASET st). 0 \<le> hour r \<and> hour r < 4294967295"
    and "loc \<in> set LOCATIONS"
  shows "\<exists>ls. PER_LOCATION_STATS (computePerLocationStats st) loc = Some ls \<and>
           topHours ls = spec_top_hours (DATASET st) loc 5 \<and>
           length (topHours ls) \<le> 5 \<and>
           sorted_wrt (\<lambda>a b. snd b < snd a \<or> (snd a = snd b \<and> fst a < fst b)) (topHours ls) \<and>
           (\<forall>e\<in>set (topHours ls).
              (\<exists>r\<in>set (DATASET st). location r = Some loc \<and> hour r = fst e) \<and>
              snd e = Math_round (spec_mean (spec_group (DATASET st) loc (fst e))) \<and>
              \<bar>real_of_int (snd e) - spec_mean (spec_group (DATASET st) loc (fst e))\<bar> \<le> 1 / 2) \<and>
           (filter (\<lambda>r. location r = Some loc) (DATASET st) = [] \<longrightarrow> topHours ls = [])"
proof -
  let ?ls = "locationStats (DATASET st) loc"
  have idx: "\<forall>r\<in>set (DATASET st). is_array_index (hour r)"
    using assms(1) by (simp add: is_array_index_def)
  have eq: "topHours ?ls = spec_top_hours (DATASET st) loc 5"
    by (rule topHours_refines [OF idx])
  have "PER_LOCATION_STATS (computePerLocationStats st) loc = Some ?ls"
    using assms(2) by (simp add: per_location_lookup)
  moreover have "length (topHours ?ls) \<le> 5"
    unfolding eq by (simp add: spec_top_hours_def)
  moreover have "sorted_wrt (\<lambda>a b. snd b < snd a \<or> (snd a = snd b \<and> fst a < fst b)) (topHours ?ls)"
    unfolding eq by (rule spec_top_hours_ranked)
  moreover have "\<forall>e\<in>set (topHours ?ls).
              (\<exists>r\<in>set (DATASET st). location r = Some loc \<and> hour r = fst e) \<and>
              snd e = Math_round (spec_mean (spec_group (DATASET st) loc (fst e))) \<and>
              \<bar>real_of_int (snd e) - spec_mean (spec_group (DATASET st) loc (fst e))\<bar> \<le> 1 / 2"
  proof
    fix e assume "e \<in> set (topHours ?ls)"
    then have e: "fst e \<in> group_hours (DATASET st) loc"
      "snd e = round (spec_mean (spec_group (DATASET st) loc (fst e)))"
      unfolding eq by (simp_all add: spec_top_hours_entry)
    from e(1) have "\<exists>r\<in>set (DATASET st). location r = Some loc \<and> hour r = fst e"
      by (auto simp: group_hours_def)
    moreover have "snd e = Math_round (spec_mean (spec_group (DATASET st) loc (fst e)))"
      using e(2) by (simp add: Math_round_def round_def)
    moreover have "\<bar>real_of_int (snd e) - spec_mean (spec_group (DATASET st) loc (fst e))\<bar> \<le> 1 / 2"
      unfolding e(2) by (rule of_int_round_abs_le)
    ultimately show "(\<exists>r\<in>set (DATASET st). location r = Some loc \<and> hour r = fst e) \<and>
              snd e = Math_round (spec_mean (spec_group (DATASET st) loc (fst e))) \<and>
              \<bar>real_of_int (snd e) - spec_mean (spec_group (DATASET st) loc (fst e))\<bar> \<le> 1 / 2"
      by blast
  qed
  moreover have "filter (\<lambda>r. location r = Some loc) (DATASET st) = [] \<longrightarrow> topHours ?ls = []"
    by (simp add: locationStats_def)
  ultimately show ?thesis using eq by blast
qed

text \<open>
  In \<open>tie_corpus\<close> the hours 8 and 9 both average 150, and hour 9 is met first: hour 8
  is listed before hour 9, after hour 10 with its average of 301 (300.5 rounded up).
\<close>

theorem topHours_ranking_witness:
  "''KRS_Dam'' \<in> set LOCATIONS \<and>
   (\<exists>ls. PER_LOCATION_STATS (computePerLocationStats (corpus_state tie_corpus)) ''KRS_Dam''
            = Some ls \<and>
         topHours ls = [(10, 301), (8, 150), (9, 150)])"
proof -
  have l: "''KRS_Dam'' \<in> set LOCATIONS" by (simp add: LOCATIONS_def)
  have d: "DATASET (corpus_state tie_corpus) = tie_corpus"
    by (simp add: corpus_state_def init_state_def)
  have h: "\<forall>r\<in>set (DATASET (corpus_state tie_corpus)). 0 \<le> hour r \<and> hour r < 4294967295"
    unfolding d by (simp add: tie_corpus_def observation_def)
  have s: "spec_top_hours tie_corpus ''KRS_Dam'' 5 = [(10, 301), (8, 150), (9, 150)]"
    by (simp add: spec_top_hours_def tie_corpus_def observation_def spec_group_def
        spec_mean_def round_def)
  show ?thesis
    using l topHours_ranking [OF h l] by (auto simp: d s)
qed

section \<open>The dataset generator\<close>

subsection \<open>Rows stay within their ranges\<close>

lemma draws_okD:
  "draws_ok P m \<Longrightarrow> unit_draws src \<Longrightarrow> m src = Some (x, src') \<Longrightarrow> P x \<and> unit_draws src'"
  unfolding draws_ok_def by blast

lemma draws_ok_random: "draws_ok (\<lambda>r. 0 \<le> r \<and> r < 1) Math_random"
  by (auto simp: draws_ok_def Math_random_def unit_draws_def split: list.splits)

lemma draws_ok_return: "P x \<Longrightarrow> draws_ok P (return_rand x)"
  by (simp add: draws_ok_def return_rand_def)

lemma draws_ok_bind:
  assumes "draws_ok P m" and "\<And>x. P x \<Longrightarrow> draws_ok Q (f x)"
  shows "draws_ok Q (bind_rand m f)"
  unfolding draws_ok_def
proof (intro allI impI)
  fix src y src''
  assume u: "unit_draws src" and b: "bind_rand m f src = Some (y, src'')"
  from b obtain x src' where m: "m src = Some (x, src')" and f: "f x src' = Some (y, src'')"
    by (auto simp: bind_rand_def split: option.splits)
  from draws_okD[OF assms(1) u m] have "P x" "unit_draws src'" by simp_all
  with assms(2) f show "Q y \<and> unit_draws src''" by (blast dest: draws_okD)
qed

lemma draws_ok_weaken: "draws_ok P m \<Longrightarrow> (\<And>x. P x \<Longrightarrow> Q x) \<Longrightarrow> draws_ok Q m"
  unfolding draws_ok_def by blast

lemma redraw_suffix: "redraw_while_zero u src = Some (x, src') \<Longrightarrow> set src' \<subseteq> set src"
  by (induction u src rule: redraw_while_zero.induct) (auto split: if_splits)

lemma draws_ok_redraw: "draws_ok (\<lambda>_. True) (redraw_while_zero u)"
  unfolding draws_ok_def unit_draws_def by (blast dest: redraw_suffix)

lemma draws_ok_gaussian: "draws_ok (\<lambda>_. True) (gaussianRandom mean std)"
  unfolding gaussianRandom_def Let_def
  by (intro draws_ok_bind[OF draws_ok_redraw] draws_ok_return TrueI)

lemma footfallWithNoise_nonneg: "0 \<le> footfallWithNoise l h w t fe ho noise"
  by (simp add: footfallWithNoise_def Let_def)

lemma draws_ok_footfall: "draws_ok (\<lambda>f. 0 \<le> f) (computeFootfallSample l h w t fe ho)"
  unfolding computeFootfallSample_def
  by (intro draws_ok_bind[OF draws_ok_gaussian] draws_ok_return footfallWithNoise_nonneg)

lemma draws_ok_festival: "draws_ok (\<lambda>_. True) (draw_festival d)"
  unfolding draw_festival_def
  by (auto intro!: draws_ok_bind[OF draws_ok_random] draws_ok_return)

lemma draws_ok_weather: "draws_ok (\<lambda>_. True) draw_weather"
  unfolding draw_weather_def
  by (auto intro!: draws_ok_bind[OF draws_ok_random] draws_ok_return)

lemma hour_range:
  assumes "0 \<le> r" "r < 1"
  shows "6 \<le> \<lfloor>r * (21 - 6 + 1)\<rfloor> + 6 \<and> \<lfloor>r * (21 - 6 + 1)\<rfloor> + 6 \<le> 21"
proof -
  have "0 \<le> r * 16" "r * 16 < 16" using assms by simp_all
  then have "0 \<le> \<lfloor>r * 16\<rfloor>" "\<lfloor>r * 16\<rfloor> < 16" by (simp_all add: floor_less_iff)
  then show ?thesis by simp
qed

lemma location_known: assumes "0 \<le> r" "r < 1"
  shows "js_index LOCATIONS \<lfloor>r * real (length LOCATIONS)\<rfloor> \<in> Some ` set LOCATIONS"
proof -
  have n: "length LOCATIONS = 7" by (simp add: LOCATIONS_def)
  have "0 \<le> r * 7" "r * 7 < 7" using assms by simp_all
  then have "0 \<le> \<lfloor>r * 7\<rfloor>" "\<lfloor>r * 7\<rfloor> < 7" by (simp_all add: floor_less_iff)
  then have "0 \<le> \<lfloor>r * real (length LOCATIONS)\<rfloor>"
    and "nat \<lfloor>r * real (length LOCATIONS)\<rfloor> < length LOCATIONS"
    unfolding n by linarith+
  then show ?thesis unfolding js_index_def using nth_mem by force
qed

lemma chunk_row_ok: "draws_ok row_ok (chunk_row api start msRange)"
  unfolding chunk_row_def Let_def
  apply (rule draws_ok_bind[OF draws_ok_random])
  apply (rule draws_ok_bind[OF draws_ok_random])
  apply (rule draws_ok_bind[OF draws_ok_random])
  apply (rule draws_ok_bind[OF draws_ok_weather])
  apply (rule draws_ok_bind[OF draws_ok_random])
  apply (rule draws_ok_bind[OF draws_ok_festival])
  apply (rule draws_ok_bind[OF draws_ok_footfall])
  apply (rule draws_ok_return)
  apply (simp add: row_ok_def hour_range location_known)
  done

lemma dataset_row_ok: "draws_ok row_ok (dataset_row api start msRange seedOffset)"
  unfolding dataset_row_def Let_def
  apply (rule draws_ok_bind[OF draws_ok_random])
  apply (rule draws_ok_bind[OF draws_ok_random])
  apply (rule draws_ok_bind[OF draws_ok_random])
  apply (rule draws_ok_bind[OF draws_ok_random])
  apply (rule draws_ok_bind[OF draws_ok_random])
  apply (rule draws_ok_bind[OF draws_ok_random])
  apply (rule draws_ok_bind[OF draws_ok_festival])
  apply (rule draws_ok_bind[OF draws_ok_footfall])
  apply (rule draws_ok_return)
  apply (simp add: row_ok_def hour_range location_known)
  done

lemma chunk_loop_ok: "draws_ok (appended n st) (chunk_loop api start msRange n st)"
proof (induction n arbitrary: st)
  case 0
  show ?case by (simp add: draws_ok_return appended_def)
next
  case (Suc n)
  show ?case
    unfolding chunk_loop.simps
  proof (rule draws_ok_bind[OF chunk_row_ok])
    fix r assume r: "row_ok r"
    show "draws_ok (appended (Suc n) st)
            (chunk_loop api start msRange n (st\<lparr>DATASET := DATASET st @ [r]\<rparr>))"
    proof (rule draws_ok_weaken[OF Suc.IH])
      fix st' assume "appended n (st\<lparr>DATASET := DATASET st @ [r]\<rparr>) st'"
      then obtain new where "DATASET st' = DATASET st @ r # new" "length new = n"
        and "\<forall>x\<in>set new. row_ok x"
        by (auto simp: appended_def)
      then show "appended (Suc n) st st'" using r
        unfolding appended_def by (intro exI[of _ "r # new"]) simp
    qed
  qed
qed

lemma returns_random: "returns_within 1 Math_random"
  unfolding returns_within_def Math_random_def
  by (auto split: list.splits)

lemma returns_return: "returns_within 0 (return_rand x)"
  unfolding returns_within_def return_rand_def by simp

lemma returns_redraw: "returns_within 1 (redraw_while_zero 0)"
  unfolding returns_within_def
proof (intro allI impI)
  fix src :: "real list"
  assume nz: "\<forall>r\<in>set src. r \<noteq> 0" and len: "1 \<le> length src"
  then obtain r rest where src: "src = r # rest" by (cases src) auto
  with nz have "r \<noteq> 0" by simp
  then have "redraw_while_zero 0 src = Some (r, rest)"
    unfolding src by (cases rest) simp_all
  then show "\<exists>x src'. redraw_while_zero 0 src = Some (x, src') \<and>
                 length src \<le> length src' + 1 \<and> set src' \<subseteq> set src"
    using src by auto
qed

lemma returns_bind:
  assumes "returns_within j m" and "\<And>x. returns_within k (f x)"
  shows "returns_within (j + k) (bind_rand m f)"
  unfolding returns_within_def
proof (intro allI impI)
  fix src :: "real list"
  assume nz: "\<forall>r\<in>set src. r \<noteq> 0" and len: "j + k \<le> length src"
  from assms(1) nz len obtain x s1 where m: "m src = Some (x, s1)"
    and l1: "length src \<le> length s1 + j" and s1: "set s1 \<subseteq> set src"
    unfolding returns_within_def by (metis add_leE)
  from s1 nz have nz1: "\<forall>r\<in>set s1. r \<noteq> 0" by blast
  from l1 len have "k \<le> length s1" by simp
  with assms(2)[of x] nz1 obtain y s2 where f: "f x s1 = Some (y, s2)"
    and l2: "length s1 \<le> length s2 + k" and s2: "set s2 \<subseteq> set s1"
    unfolding returns_within_def by blast
  show "\<exists>y src'. bind_rand m f src = Some (y, src') \<and>
                length src \<le> length src' + (j + k) \<and> set src' \<subseteq> set src"
    using m f l1 l2 s1 s2 by (auto simp: bind_rand_def)
qed

lemma returns_weaken: "returns_within j m \<Longrightarrow> j \<le> k \<Longrightarrow> returns_within k m"
  unfolding returns_within_def
  by (meson le_trans add_le_mono order_refl)

lemma returns_gaussian: "returns_within 2 (gaussianRandom mean std)"
proof -
  have "returns_within (1 + (1 + 0)) (gaussianRandom mean std)"
    unfolding gaussianRandom_def Let_def
    by (intro returns_bind returns_redraw returns_return)
  then show ?thesis by (rule returns_weaken) simp
qed

lemma returns_footfall: "returns_within 2 (computeFootfallSample l h w t fe ho)"
proof -
  have "returns_within (2 + 0) (computeFootfallSample l h w t fe ho)"
    unfolding computeFootfallSample_def
    by (intro returns_bind returns_gaussian returns_return)
  then show ?thesis by (rule returns_weaken) simp
qed

lemma returns_festival: "returns_within 1 (draw_festival d)"
proof (cases "d \<in> set FESTIVAL_DATES")
  case True
  then show ?thesis
    unfolding draw_festival_def using returns_weaken[OF returns_return, of 1] by simp
next
  case False
  have "returns_within (1 + 0)
          (bind_rand Math_random (\<lambda>r. return_rand (if r < 0.02 then 1 else (0::nat))))"
    by (intro returns_bind returns_random returns_return)
  then have "returns_within 1
          (bind_rand Math_random (\<lambda>r. return_rand (if r < 0.02 then 1 else (0::nat))))"
    by (rule returns_weaken) simp
  with False show ?thesis unfolding draw_festival_def by simp
qed

lemma returns_weather: "returns_within 2 draw_weather"
proof -
  have "returns_within (1 + 1) draw_weather"
    unfolding draw_weather_def
  proof (rule returns_bind[OF returns_random])
    fix r4 :: real
    have a: "returns_within 1 (return_rand (Some ''Clear''))"
      using returns_weaken[OF returns_return, of 1] by simp
    have "returns_within (1 + 0) (bind_rand Math_random (\<lambda>r5.
              return_rand (js_index weatherTypes \<lfloor>r5 * real (length weatherTypes)\<rfloor>)))"
      by (intro returns_bind returns_random returns_return)
    then have b: "returns_within 1 (bind_rand Math_random (\<lambda>r5.
              return_rand (js_index weatherTypes \<lfloor>r5 * real (length weatherTypes)\<rfloor>)))"
      by (rule returns_weaken) simp
    show "returns_within 1 (if r4 < 0.65 then return_rand (Some ''Clear'')
       else bind_rand Math_random (\<lambda>r5.
              return_rand (js_index weatherTypes \<lfloor>r5 * real (length weatherTypes)\<rfloor>)))"
      using a b by simp
  qed
  then show ?thesis by (rule returns_weaken) simp
qed

lemma returns_chunk_row: "returns_within 9 (chunk_row api start msRange)"
proof -
  have "returns_within (1 + (1 + (1 + (2 + (1 + (1 + (2 + 0)))))))
          (chunk_row api start msRange)"
    unfolding chunk_row_def Let_def
    by (intro returns_bind returns_random returns_weather returns_festival returns_footfall
        returns_return)
  then show ?thesis by (rule returns_weaken) simp
qed

lemma returns_dataset_row: "returns_within 9 (dataset_row api start msRange seedOffset)"
proof -
  have "returns_within (1 + (1 + (1 + (1 + (1 + (1 + (1 + (2 + 0))))))))
          (dataset_row api start msRange seedOffset)"
    unfolding dataset_row_def Let_def
    by (intro returns_bind returns_random returns_festival returns_footfall returns_return)
  then show ?thesis by (rule returns_weaken) simp
qed

lemma returns_chunk_loop: "returns_within (9 * n) (chunk_loop api start msRange n st)"
proof (induction n arbitrary: st)
  case 0
  show ?case using returns_return by simp
next
  case (Suc n)
  have "returns_within (9 + 9 * n) (chunk_loop api start msRange (Suc n) st)"
    unfolding chunk_loop.simps
    by (intro returns_bind returns_chunk_row Suc.IH)
  then show ?case by (rule returns_weaken) simp
qed

lemma returns_dataset_loop:
  "returns_within (9 * n) (dataset_loop api start msRange seedOffset n st)"
proof (induction n arbitrary: st)
  case 0
  show ?case using returns_return by simp
next
  case (Suc n)
  have "returns_within (9 + 9 * n) (dataset_loop api start msRange seedOffset (Suc n) st)"
    unfolding dataset_loop.simps
    by (intro returns_bind returns_dataset_row Suc.IH)
  then show ?case by (rule returns_weaken) simp
qed

lemma returns_generateChunkAndAppend: "returns_within (9 * n) (generateChunkAndAppend api n st)"
  unfolding generateChunkAndAppend_def Let_def by (rule returns_chunk_loop)

lemma returns_generateDataset: "returns_within (9 * n) (generateDataset api n seedOffset st)"
proof -
  have "returns_within (9 * n + 0) (generateDataset api n seedOffset st)"
    unfolding generateDataset_def Let_def
    by (intro returns_bind returns_dataset_loop returns_return)
  then show ?thesis by (rule returns_weaken) simp
qed

lemma dataset_loop_ok: "draws_ok (appended n st) (dataset_loop api start msRange seedOffset n st)"
proof (induction n arbitrary: st)
  case 0
  show ?case by (simp add: draws_ok_return appended_def)
next
  case (Suc n)
  show ?case
    unfolding dataset_loop.simps
  proof (rule draws_ok_bind[OF dataset_row_ok])
    fix r assume r: "row_ok r"
    show "draws_ok (appended (Suc n) st)
            (dataset_loop api start msRange seedOffset n (st\<lparr>DATASET := DATASET st @ [r]\<rparr>))"
    proof (rule draws_ok_weaken[OF Suc.IH])
      fix st' assume "appended n (st\<lparr>DATASET := DATASET st @ [r]\<rparr>) st'"
      then obtain new where "DATASET st' = DATASET st @ r # new" "length new = n"
        and "\<forall>x\<in>set new. row_ok x"
        by (auto simp: appended_def)
      then show "appended (Suc n) st st'" using r
        unfolding appended_def by (intro exI[of _ "r # new"]) simp
    qed
  qed
qed

lemma label_row_ok: "row_ok r \<Longrightarrow> row_ok (label_row a b c r)"
  by (simp add: row_ok_def label_row_def Let_def)

lemma labelling_keeps_rows_ok:
  "\<forall>r\<in>set (DATASET st). row_ok r \<Longrightarrow> \<forall>r\<in>set (DATASET (computeGlobalQuartilesAndLabels st)). row_ok r"
  by (auto simp: computeGlobalQuartilesAndLabels_def Let_def label_row_ok)

lemma labelling_keeps_length:
  "length (DATASET (computeGlobalQuartilesAndLabels st)) = length (DATASET st)"
  by (simp add: computeGlobalQuartilesAndLabels_def Let_def)

lemma stats_keep_dataset: "DATASET (computePerLocationStats st) = DATASET st"
  by (simp add: computePerLocationStats_def)

lemma generateDataset_ok: "draws_ok (corpus_ok n) (generateDataset api n seedOffset st)"
  unfolding generateDataset_def Let_def
proof (rule draws_ok_bind[OF dataset_loop_ok])
  fix st1 assume "appended n (st\<lparr>DATASET := []\<rparr>) st1"
  then have "length (DATASET st1) = n" "\<forall>r\<in>set (DATASET st1). row_ok r"
    by (auto simp: appended_def)
  then have "corpus_ok n (computePerLocationStats (computeGlobalQuartilesAndLabels st1))"
    using labelling_keeps_rows_ok[of st1]
    by (simp add: corpus_ok_def stats_keep_dataset labelling_keeps_length)
  then show "draws_ok (corpus_ok n)
               (return_rand (computePerLocationStats (computeGlobalQuartilesAndLabels st1)))"
    by (rule draws_ok_return)
qed

lemma generateChunkAndAppend_ok: "draws_ok (appended n st) (generateChunkAndAppend api n st)"
  unfolding generateChunkAndAppend_def Let_def by (rule chunk_loop_ok)

subsection \<open>A run on concrete draws\<close>

lemmas rand_simps = bind_rand_def return_rand_def Math_random_def

lemma redraw_nonzero: "u \<noteq> 0 \<Longrightarrow> redraw_while_zero u src = Some (u, src)"
  by (cases src) simp_all

lemma festival_eval: "draw_festival ''2024-06-03'' (1 / 2 # rest) = Some (0, rest)"
  by (simp add: draw_festival_def FESTIVAL_DATES_def rand_simps)

lemma weather_eval: "draw_weather (1 / 2 # rest) = Some (Some ''Clear'', rest)"
  by (simp add: draw_weather_def rand_simps)

text \<open>
  \<open>draws_a\<close> in \<open>generateDataset\<close>: hour \<open>floor(16 / 2) + 6 = 14\<close>, location
  \<open>LOCATIONS[3]\<close>, the noise from the last two draws.
\<close>

lemma dataset_row_a:
  "\<exists>r. dataset_row stub_date s m 0 (draws_a @ rest) = Some (r, rest) \<and>
        hour r = 14 \<and> location r = Some ''Mysore_Palace''"
  unfolding dataset_row_def draws_a_def Let_def stub_date_def
  by (simp add: rand_simps festival_eval computeFootfallSample_def gaussianRandom_def
      redraw_nonzero js_index_def LOCATIONS_def)

lemma dataset_row_b:
  "\<exists>r. dataset_row stub_date s m 0 (draws_b @ rest) = Some (r, rest) \<and> hour r = 8"
  unfolding dataset_row_def draws_b_def Let_def stub_date_def
  by (simp add: rand_simps festival_eval computeFootfallSample_def gaussianRandom_def
      redraw_nonzero)

lemma labelling_keeps_hour:
  "map hour (DATASET (computeGlobalQuartilesAndLabels st)) = map hour (DATASET st)"
  by (simp add: computeGlobalQuartilesAndLabels_def Let_def label_row_def comp_def)

lemma generateDataset_a:
  "\<exists>st'. generateDataset stub_date 1 0 st (draws_a @ rest) = Some (st', rest) \<and>
          map hour (DATASET st') = [14]"
proof -
  let ?s = "setFullYear stub_date (newDate stub_date 0)
              (getFullYear stub_date (newDate stub_date 0) - 2)"
  obtain r where
    "dataset_row stub_date ?s (newDate stub_date 1 - ?s) 0 (draws_a @ rest) = Some (r, rest)"
    and "hour r = 14"
    using dataset_row_a by blast
  then show ?thesis
    by (simp add: generateDataset_def Let_def rand_simps labelling_keeps_hour
        stats_keep_dataset)
qed

lemma generateDataset_b:
  "\<exists>st'. generateDataset stub_date 1 0 st (draws_b @ rest) = Some (st', rest) \<and>
          map hour (DATASET st') = [8]"
proof -
  let ?s = "setFullYear stub_date (newDate stub_date 0)
              (getFullYear stub_date (newDate stub_date 0) - 2)"
  obtain r where
    "dataset_row stub_date ?s (newDate stub_date 1 - ?s) 0 (draws_b @ rest) = Some (r, rest)"
    and "hour r = 8"
    using dataset_row_b by blast
  then show ?thesis
    by (simp add: generateDataset_def Let_def rand_simps labelling_keeps_hour
        stats_keep_dataset)
qed

text \<open>
  \<open>draws_a\<close> in \<open>generateChunkAndAppend\<close>: the weather takes one draw, so the last draw
  is left over.
\<close>

lemma chunk_row_a: "\<exists>r. chunk_row stub_date s m draws_a = Some (r, [1 / 4])"
  unfolding chunk_row_def draws_a_def Let_def stub_date_def
  by (simp add: rand_simps festival_eval weather_eval computeFootfallSample_def
      gaussianRandom_def redraw_nonzero)

lemma generateChunkAndAppend_a:
  "\<exists>st'. generateChunkAndAppend stub_date 1 init_state draws_a = Some (st', [1 / 4])"
proof -
  let ?s = "makeDate stub_date (getFullYear stub_date (newDate stub_date 0) - 2)
              (getMonth stub_date (newDate stub_date 0)) (getDate stub_date (newDate stub_date 0))"
  obtain r where "chunk_row stub_date ?s (newDate stub_date 0 - ?s) draws_a = Some (r, [1 / 4])"
    using chunk_row_a by blast
  then show ?thesis
    by (simp add: generateChunkAndAppend_def Let_def rand_simps)
qed

text \<open>
  C4. On a source of draws in \<open>[0, 1)\<close>, every row that \<open>generateChunkAndAppend\<close> appends
  and every row of the corpus that \<open>generateDataset\<close> leaves has an hour from 6 to 21, a
  footfall of at least 0 and a location in \<open>LOCATIONS\<close>, for every count \<open>n\<close>; exactly
  \<open>n\<close> rows are produced; and both calls return when the source holds \<open>9 n\<close> non-zero
  draws.
\<close>

theorem generator_invariant:
  assumes "\<forall>r\<in>set src. 0 \<le> r \<and> r < 1"
  shows "(generateChunkAndAppend api n st src = Some (st', rest) \<longrightarrow>
           (\<exists>new. DATASET st' = DATASET st @ new \<and> length new = n \<and>
              (\<forall>r\<in>set new. 6 \<le> hour r \<and> hour r \<le> 21 \<and> 0 \<le> footfall r \<and>
                  location r \<in> Some ` set LOCATIONS))) \<and>
         (generateDataset api n seedOffset st src = Some (st'', rest') \<longrightarrow>
           length (DATASET st'') = n \<and>
           (\<forall>r\<in>set (DATASET st''). 6 \<le> hour r \<and> hour r \<le> 21 \<and> 0 \<le> footfall r \<and>
                  location r \<in> Some ` set LOCATIONS)) \<and>
         ((\<forall>r\<in>set src. r \<noteq> 0) \<and> 9 * n \<le> length src \<longrightarrow>
           generateChunkAndAppend api n st src \<noteq> None \<and>
           generateDataset api n seedOffset st src \<noteq> None)"
proof (intro conjI impI)
  have u: "unit_draws src" using assms by (simp add: unit_draws_def)
  {
    assume "generateChunkAndAppend api n st src = Some (st', rest)"
    from draws_okD[OF generateChunkAndAppend_ok u this]
    show "\<exists>new. DATASET st' = DATASET st @ new \<and> length new = n \<and>
              (\<forall>r\<in>set new. 6 \<le> hour r \<and> hour r \<le> 21 \<and> 0 \<le> footfall r \<and>
                  location r \<in> Some ` set LOCATIONS)"
      by (simp add: appended_def row_ok_def)
  }
  {
    assume "generateDataset api n seedOffset st src = Some (st'', rest')"
    from draws_okD[OF generateDataset_ok u this]
    show "length (DATASET st'') = n" 
      and "\<forall>r\<in>set (DATASET st''). 6 \<le> hour r \<and> hour r \<le> 21 \<and> 0 \<le> footfall r \<and>
                  location r \<in> Some ` set LOCATIONS"
      by (simp_all add: corpus_ok_def row_ok_def)
  }
  {
    assume a: "(\<forall>r\<in>set src. r \<noteq> 0) \<and> 9 * n \<le> length src"
    show "generateChunkAndAppend api n st src \<noteq> None"
      using returns_generateChunkAndAppend [of n api st] a
      unfolding returns_within_def by fastforce
    show "generateDataset api n seedOffset st src \<noteq> None"
      using returns_generateDataset [of n api seedOffset st] a
      unfolding returns_within_def by fastforce
  }
qed

text \<open>One row from the nine draws of \<open>draws_a\<close>, by either generator.\<close>

theorem generator_invariant_witness:
  "(\<exists>st'. generateChunkAndAppend stub_date 1 init_state draws_a = Some (st', [1 / 4]) \<and>
      length (DATASET st') = 1 \<and>
      6 \<le> hour (DATASET st' ! 0) \<and> hour (DATASET st' ! 0) \<le> 21 \<and>
      0 \<le> footfall (DATASET st' ! 0) \<and> location (DATASET st' ! 0) \<in> Some ` set LOCATIONS) \<and>
   (\<exists>st'. generateDataset stub_date 1 0 init_state draws_a = Some (st', []) \<and>
      length (DATASET st') = 1 \<and>
      6 \<le> hour (DATASET st' ! 0) \<and> hour (DATASET st' ! 0) \<le> 21 \<and>
      0 \<le> footfall (DATASET st' ! 0) \<and> location (DATASET st' ! 0) \<in> Some ` set LOCATIONS)"
proof -
  have u: "\<forall>r\<in>set draws_a. 0 \<le> r \<and> r < 1" by (simp add: draws_a_def)
  obtain st1 where c: "generateChunkAndAppend stub_date 1 init_state draws_a = Some (st1, [1 / 4])"
    using generateChunkAndAppend_a by blast
  obtain st2 where g: "generateDataset stub_date 1 0 init_state draws_a = Some (st2, [])"
    using generateDataset_a [of init_state "[]"] by auto
  have e: "DATASET init_state = []" by (simp add: init_state_def)
  from generator_invariant [OF u, of stub_date 1 init_state st1 "[1 / 4]" 0 st2 "[]"] c g
  have 1: "\<exists>new. DATASET st1 = DATASET init_state @ new \<and> length new = 1 \<and>
              (\<forall>r\<in>set new. 6 \<le> hour r \<and> hour r \<le> 21 \<and> 0 \<le> footfall r \<and>
                  location r \<in> Some ` set LOCATIONS)"
    and 2: "length (DATASET st2) = 1 \<and>
           (\<forall>r\<in>set (DATASET st2). 6 \<le> hour r \<and> hour r \<le> 21 \<and> 0 \<le> footfall r \<and>
                  location r \<in> Some ` set LOCATIONS)"
    by simp_all
  from 1 obtain r1 where "DATASET st1 = [r1]" "6 \<le> hour r1 \<and> hour r1 \<le> 21 \<and> 0 \<le> footfall r1 \<and>
                  location r1 \<in> Some ` set LOCATIONS"
    by (auto simp: e length_Suc_conv)
  moreover from 2 obtain r2 where "DATASET st2 = [r2]" "6 \<le> hour r2 \<and> hour r2 \<le> 21 \<and> 0 \<le> footfall r2 \<and>
                  location r2 \<in> Some ` set LOCATIONS"
    by (auto simp: length_Suc_conv)
  ultimately show ?thesis using c g by simp
qed

section \<open>Determinism of the generator\<close>

lemma framed_random: "framed Math_random"
  unfolding framed_def Math_random_def
  by (auto split: list.splits intro: exI[of _ "[x]" for x])

lemma framed_return: "framed (return_rand x)"
  unfolding framed_def return_rand_def by simp

lemma redraw_frame:
  "redraw_while_zero u src = Some (x, src') \<Longrightarrow>
   \<exists>used. src = used @ src' \<and> (\<forall>rest. redraw_while_zero u (used @ rest) = Some (x, rest))"
proof (induction u src rule: redraw_while_zero.induct)
  case (1 u)
  then have "u \<noteq> 0" "x = u" "src' = []" by (auto split: if_splits)
  then show ?case by (simp add: redraw_nonzero)
next
  case (2 u r rest0)
  show ?case
  proof (cases "u = 0")
    case True
    with 2 obtain used where "rest0 = used @ src'"
      and "\<forall>rest. redraw_while_zero r (used @ rest) = Some (x, rest)" by auto
    with True show ?thesis by (intro exI[of _ "r # used"]) simp
  next
    case False
    with 2 have "x = u" "src' = r # rest0" by auto
    with False show ?thesis by (intro exI[of _ "[]"]) (simp add: redraw_nonzero)
  qed
qed

lemma framed_redraw: "framed (redraw_while_zero u)"
  unfolding framed_def using redraw_frame by blast

lemma framed_bind:
  assumes "framed m" and "\<And>x. framed (f x)"
  shows "framed (bind_rand m f)"
  unfolding framed_def
proof (intro allI impI)
  fix src y s2
  assume "bind_rand m f src = Some (y, s2)"
  then obtain x s1 where m: "m src = Some (x, s1)" and f: "f x s1 = Some (y, s2)"
    by (auto simp: bind_rand_def split: option.splits)
  from assms(1) m obtain u1 where u1: "src = u1 @ s1" "\<forall>rest. m (u1 @ rest) = Some (x, rest)"
    unfolding framed_def by blast
  from assms(2)[of x] f obtain u2 where u2: "s1 = u2 @ s2" "\<forall>rest. f x (u2 @ rest) = Some (y, rest)"
    unfolding framed_def by blast
  show "\<exists>used. src = used @ s2 \<and> (\<forall>rest. bind_rand m f (used @ rest) = Some (y, rest))"
    using u1 u2 by (intro exI[of _ "u1 @ u2"]) (simp add: bind_rand_def)
qed

lemma framed_gaussian: "framed (gaussianRandom mean std)"
  unfolding gaussianRandom_def Let_def
  by (intro framed_bind framed_redraw framed_return)

lemma framed_footfall: "framed (computeFootfallSample l h w t fe ho)"
  unfolding computeFootfallSample_def
  by (intro framed_bind framed_gaussian framed_return)

lemma framed_festival: "framed (draw_festival d)"
  unfolding draw_festival_def
  by (auto intro!: framed_bind framed_random framed_return)

lemma framed_dataset_row: "framed (dataset_row api start msRange seedOffset)"
  unfolding dataset_row_def Let_def
  by (intro framed_bind framed_random framed_festival framed_footfall framed_return)

lemma framed_dataset_loop: "framed (dataset_loop api start msRange seedOffset n st)"
proof (induction n arbitrary: st)
  case 0
  show ?case by (simp add: framed_return)
next
  case (Suc n)
  show ?case unfolding dataset_loop.simps
    by (intro framed_bind framed_dataset_row Suc.IH)
qed

lemma framed_generateDataset: "framed (generateDataset api n seedOffset st)"
  unfolding generateDataset_def Let_def
  by (intro framed_bind framed_dataset_loop framed_return)

lemma dataset_loop_prior_state:
  "DATASET a = DATASET b \<Longrightarrow>
   dataset_loop api start msRange seedOffset n a src = Some (a', s) \<Longrightarrow>
   \<exists>b'. dataset_loop api start msRange seedOffset n b src = Some (b', s) \<and> DATASET a' = DATASET b'"
proof (induction n arbitrary: a b src)
  case 0
  then show ?case by (simp add: return_rand_def)
next
  case (Suc n)
  from Suc.prems(2) obtain r s1
    where r: "dataset_row api start msRange seedOffset src = Some (r, s1)"
      and l: "dataset_loop api start msRange seedOffset n (a\<lparr>DATASET := DATASET a @ [r]\<rparr>) s1
                = Some (a', s)"
    by (auto simp: bind_rand_def split: option.splits)
  have "DATASET (a\<lparr>DATASET := DATASET a @ [r]\<rparr>) = DATASET (b\<lparr>DATASET := DATASET b @ [r]\<rparr>)"
    using Suc.prems(1) by simp
  from Suc.IH[OF this l] r show ?case by (simp add: bind_rand_def)
qed

lemma finish_prior_state:
  "DATASET a = DATASET b \<Longrightarrow>
   computePerLocationStats (computeGlobalQuartilesAndLabels a)
     = computePerLocationStats (computeGlobalQuartilesAndLabels b)"
  by (simp add: computePerLocationStats_def computeGlobalQuartilesAndLabels_def Let_def)

lemma generateDataset_prior_state:
  assumes "generateDataset api n seedOffset st src = Some (st1, s)"
  shows "generateDataset api n seedOffset st' src = Some (st1, s)"
proof -
  let ?start = "setFullYear api (newDate api 0) (getFullYear api (newDate api 0) - 2)"
  from assms obtain a
    where a: "dataset_loop api ?start (newDate api 1 - ?start) seedOffset n
                (st\<lparr>DATASET := []\<rparr>) src = Some (a, s)"
    and st1: "st1 = computePerLocationStats (computeGlobalQuartilesAndLabels a)"
    by (auto simp: generateDataset_def Let_def bind_rand_def return_rand_def split: option.splits)
  have "DATASET (st\<lparr>DATASET := []\<rparr>) = DATASET (st'\<lparr>DATASET := []\<rparr>)" by simp
  from dataset_loop_prior_state[OF this a] obtain b where
    b: "dataset_loop api ?start (newDate api 1 - ?start) seedOffset n
          (st'\<lparr>DATASET := []\<rparr>) src = Some (b, s)"
    and d: "DATASET a = DATASET b" by blast
  show ?thesis
    using b st1 finish_prior_state[OF d]
    by (simp add: generateDataset_def Let_def bind_rand_def return_rand_def)
qed

text \<open>
  C9, as the code has it. \<open>generateDataset\<close> has no seed for the uniform source: its
  parameter \<open>seedOffset\<close> is only added to the timestamp of each row. What the call
  leaves is determined by the count, \<open>seedOffset\<close>, the clock and the draws it consumes:
  a second call that meets the same draws ends in the same state, whatever the state
  before it and whatever follows in the source.
\<close>

theorem generateDataset_determined_by_draws:
  assumes "generateDataset api n seedOffset st (used @ rest) = Some (st1, rest)"
  shows "generateDataset api n seedOffset st' (used @ rest') = Some (st1, rest')"
proof -
  from framed_generateDataset[of api n seedOffset st] assms
  obtain used' where "used @ rest = used' @ rest"
    and "\<forall>r. generateDataset api n seedOffset st (used' @ r) = Some (st1, r)"
    unfolding framed_def by blast
  then have "generateDataset api n seedOffset st (used @ rest') = Some (st1, rest')" by simp
  then show ?thesis by (rule generateDataset_prior_state)
qed

theorem generateDataset_determined_by_draws_witness:
  "\<exists>st1. generateDataset stub_date 1 0 init_state (draws_a @ []) = Some (st1, []) \<and>
         generateDataset stub_date 1 0 (quartile_state 1 2 3) (draws_a @ [1 / 3])
           = Some (st1, [1 / 3])"
proof -
  obtain st1 where g: "generateDataset stub_date 1 0 init_state (draws_a @ []) = Some (st1, [])"
    using generateDataset_a [of init_state "[]"] by auto
  from generateDataset_determined_by_draws [OF g, of "quartile_state 1 2 3" "[1 / 3]"] g
  show ?thesis by blast
qed

text \<open>
  C9, as the specification has it, fails: two calls with the same count 1 and the same
  \<open>seedOffset\<close> 0, on the same clock and from the same state, produce different corpora
  when \<open>Math.random\<close> hands them different draws (\<open>draws_a\<close>: hour 14, \<open>draws_b\<close>: hour 8).
\<close>

theorem generateDataset_seed_counterexample:
  "map_option (\<lambda>p. DATASET (fst p)) (generateDataset stub_date 1 0 init_state draws_a)
     \<noteq> map_option (\<lambda>p. DATASET (fst p)) (generateDataset stub_date 1 0 init_state draws_b)"
proof
  assume eq: "map_option (\<lambda>p. DATASET (fst p)) (generateDataset stub_date 1 0 init_state draws_a)
     = map_option (\<lambda>p. DATASET (fst p)) (generateDataset stub_date 1 0 init_state draws_b)"
  obtain sa where a: "generateDataset stub_date 1 0 init_state draws_a = Some (sa, [])"
    "map hour (DATASET sa) = [14]"
    using generateDataset_a [of init_state "[]"] by auto
  obtain sb where b: "generateDataset stub_date 1 0 init_state draws_b = Some (sb, [])"
    "map hour (DATASET sb) = [8]"
    using generateDataset_b [of init_state "[]"] by auto
  from eq a(1) b(1) have "DATASET sa = DATASET sb" by simp
  with a(2) b(2) show False by simp
qed

end
